theory Spec2Isabelle
  imports Complex_Main "HOL-Library.AList"
begin

section \<open>Python values\<close>

text \<open>
  The ingestion code handles upstream JSON as open-ended Python values.  A dict is an
  association list in insertion order, looked up with \<open>map_of\<close>; floats are idealised
  as reals (the code under study only copies and compares them).
\<close>

datatype pyval =
    PNone
  | PBool bool
  | PInt int
  | PFloat real
  | PStr string
  | PList "pyval list"
  | PDict "(string \<times> pyval) list"

type_synonym pydict = "(string \<times> pyval) list"

text \<open>The exceptions that the modelled code raises or lets through.\<close>

datatype exn =
    BallDontLieError string
  | ValueError string
  | AttributeError
  | TypeError
  | TransportError string
  | StoreError string
  | KeyError string

definition ebind :: "exn + 'a \<Rightarrow> ('a \<Rightarrow> exn + 'b) \<Rightarrow> exn + 'b" where
  "ebind m f = (case m of Inl e \<Rightarrow> Inl e | Inr x \<Rightarrow> f x)"

text \<open>Truth value of a Python object, as \<open>if x\<close>, \<open>not x\<close> and \<open>x or y\<close> test it.\<close>

fun truthy :: "pyval \<Rightarrow> bool" where
  "truthy PNone = False"
| "truthy (PBool b) = b"
| "truthy (PInt i) = (i \<noteq> 0)"
| "truthy (PFloat r) = (r \<noteq> 0)"
| "truthy (PStr s) = (s \<noteq> [])"
| "truthy (PList xs) = (xs \<noteq> [])"
| "truthy (PDict d) = (d \<noteq> [])"

definition py_or :: "pyval \<Rightarrow> pyval \<Rightarrow> pyval" where
  "py_or a b = (if truthy a then a else b)"

text \<open>\<open>d.get(k)\<close> and \<open>d.get(k, default)\<close> on a dict.\<close>

definition dict_get :: "pydict \<Rightarrow> string \<Rightarrow> pyval" where
  "dict_get d k = (case map_of d k of None \<Rightarrow> PNone | Some v \<Rightarrow> v)"

definition dict_get_default :: "pydict \<Rightarrow> string \<Rightarrow> pyval \<Rightarrow> pyval" where
  "dict_get_default d k dflt = (case map_of d k of None \<Rightarrow> dflt | Some v \<Rightarrow> v)"

text \<open>\<open>x.get(k)\<close> and \<open>x.get(k, default)\<close> on an arbitrary object: only a dict has
  the method.\<close>

fun py_get :: "pyval \<Rightarrow> string \<Rightarrow> exn + pyval" where
  "py_get (PDict d) k = Inr (dict_get d k)"
| "py_get _ k = Inl AttributeError"

fun py_get_default :: "pyval \<Rightarrow> string \<Rightarrow> pyval \<Rightarrow> exn + pyval" where
  "py_get_default (PDict d) k dflt = Inr (dict_get_default d k dflt)"
| "py_get_default _ k dflt = Inl AttributeError"

text \<open>\<open>x.lower()\<close>: only a str has the method; letters outside ASCII are left alone.\<close>

definition char_lower :: "char \<Rightarrow> char" where
  "char_lower c =
     (let n = (of_char c :: nat) in if 65 \<le> n \<and> n \<le> 90 then char_of (n + 32) else c)"

fun py_lower :: "pyval \<Rightarrow> exn + string" where
  "py_lower (PStr s) = Inr (map char_lower s)"
| "py_lower _ = Inl AttributeError"

text \<open>\<open>str(n)\<close> of an int, as f-strings render it.\<close>

fun str_nat :: "nat \<Rightarrow> string" where
  "str_nat n = (if n < 10 then [char_of (48 + n)] else str_nat (n div 10) @ [char_of (48 + n mod 10)])"

declare str_nat.simps [simp del]

definition str_int :: "int \<Rightarrow> string" where
  "str_int i = (if i < 0 then CHR ''-'' # str_nat (nat (- i)) else str_nat (nat i))"

text \<open>
  \<open>int(x)\<close>.  On a str: optional surrounding ASCII whitespace, an optional sign, then
  decimal digits, where single underscores may separate digits; anything else raises
  ValueError.  On a float it truncates towards zero.  Digits outside ASCII are not modelled.
\<close>

definition is_space :: "char \<Rightarrow> bool" where
  "is_space c = (let n = (of_char c :: nat) in n = 32 \<or> (9 \<le> n \<and> n \<le> 13))"

definition is_digit :: "char \<Rightarrow> bool" where
  "is_digit c = (let n = (of_char c :: nat) in 48 \<le> n \<and> n \<le> 57)"

definition strip :: "string \<Rightarrow> string" where
  "strip s = rev (dropWhile is_space (rev (dropWhile is_space s)))"

fun digits_value :: "nat \<Rightarrow> bool \<Rightarrow> string \<Rightarrow> nat option" where
  "digits_value acc after_digit [] = (if after_digit then Some acc else None)"
| "digits_value acc after_digit (c # cs) =
     (if is_digit c then digits_value (10 * acc + (of_char c - 48)) True cs
      else if c = CHR ''_'' \<and> after_digit then digits_value acc False cs
      else None)"

definition parse_int :: "string \<Rightarrow> int option" where
  "parse_int s =
     (case strip s of
        [] \<Rightarrow> None
      | c # cs \<Rightarrow>
          if c = CHR ''-'' then map_option (\<lambda>n. - int n) (digits_value 0 False cs)
          else if c = CHR ''+'' then map_option int (digits_value 0 False cs)
          else map_option int (digits_value 0 False (c # cs)))"

fun py_int :: "pyval \<Rightarrow> exn + int" where
  "py_int (PInt i) = Inr i"
| "py_int (PBool b) = Inr (if b then 1 else 0)"
| "py_int (PFloat r) = Inr (if r < 0 then \<lceil>r\<rceil> else \<lfloor>r\<rfloor>)"
| "py_int (PStr s) =
     (case parse_int s of
        None \<Rightarrow> Inl (ValueError ''invalid literal for int() with base 10'')
      | Some i \<Rightarrow> Inr i)"
| "py_int _ = Inl TypeError"

text \<open>Iterating over a value with \<open>for row in data\<close>: a list gives its items, a dict its
  keys, a str its characters; anything else is not iterable.\<close>

fun py_iter :: "pyval \<Rightarrow> exn + pyval list" where
  "py_iter (PList xs) = Inr xs"
| "py_iter (PDict d) = Inr (map (\<lambda>kv. PStr (fst kv)) d)"
| "py_iter (PStr s) = Inr (map (\<lambda>c. PStr [c]) s)"
| "py_iter _ = Inl TypeError"

section \<open>balldontlie\_client.py\<close>

text \<open>
  The world outside the client: the wall clock that \<open>time.time()\<close> reads, the durations
  that were slept, and the requests that went out on the session, oldest first.  A program
  takes a state and returns a value or the exception it raised, with the state it left.
\<close>

record request =
  req_method :: string
  req_url :: string
  req_headers :: "(string \<times> string) list"
  req_params :: pydict
  req_timeout :: int

record world =
  clock :: real
  slept :: "real list"
  sent :: "request list"

type_synonym ('a, 's) prog = "'s \<Rightarrow> (exn + 'a) \<times> 's"

definition sbind :: "('a, 's) prog \<Rightarrow> ('a \<Rightarrow> ('b, 's) prog) \<Rightarrow> ('b, 's) prog" where
  "sbind m f s = (case m s of (Inl e, s') \<Rightarrow> (Inl e, s') | (Inr x, s') \<Rightarrow> f x s')"

definition sreturn :: "'a \<Rightarrow> ('a, 's) prog" where
  "sreturn x s = (Inr x, s)"

definition slift :: "exn + 'a \<Rightarrow> ('a, 's) prog" where
  "slift m s = (m, s)"

text \<open>The module's \<open>_sleep\<close>, which is \<open>time.sleep\<close>: a negative duration raises
  ValueError, any other lets that much time pass.\<close>

definition sleep_default :: "real \<Rightarrow> (unit, world) prog" where
  "sleep_default seconds w =
     (if seconds < 0 then (Inl (ValueError ''sleep length must be non-negative''), w)
      else (Inr (), w\<lparr>clock := clock w + seconds, slept := slept w @ [seconds]\<rparr>))"

record RateLimiter =
  min_interval_seconds :: real
  rl_sleep :: "real \<Rightarrow> (unit, world) prog"
  last_ts :: real

definition wait :: "(unit, RateLimiter \<times> world) prog" where
  "wait s =
     (let (rl, w) = s; now = clock w in
      if last_ts rl \<le> 0 then (Inr (), (rl\<lparr>last_ts := now\<rparr>, w))
      else
        let elapsed = now - last_ts rl;
            remaining = min_interval_seconds rl - elapsed
        in case (if remaining > 0 then rl_sleep rl remaining w else (Inr (), w)) of
             (Inl e, w') \<Rightarrow> (Inl e, (rl, w'))
           | (Inr u, w') \<Rightarrow> (Inr (), (rl\<lparr>last_ts := clock w'\<rparr>, w')))"

text \<open>
  What one call of \<open>session.request\<close> does: it raises, or it returns a response.  Of the
  response the client reads the status code, the number that \<open>float()\<close> makes of the
  \<open>Retry-After\<close> header when the header is there (or the ValueError it raises), and
  what \<open>resp.json()\<close> returns or raises.
\<close>

record response =
  status_code :: int
  retry_after :: "(exn + real) option"
  json :: "exn + pyval"

datatype outcome = Raised exn | Resp response

text \<open>\<open>resp.ok\<close> of the requests library: false exactly for a status from 400 to 599.\<close>

definition ok :: "response \<Rightarrow> bool" where
  "ok resp = (\<not> (400 \<le> status_code resp \<and> status_code resp < 600))"

record client =
  api_key :: string
  base_url :: string
  session :: "request \<Rightarrow> world \<Rightarrow> outcome"
  timeout :: int
  max_retries :: int
  per_page :: int
  sleep :: "real \<Rightarrow> (unit, world) prog"

definition headers :: "client \<Rightarrow> (string \<times> string) list" where
  "headers c = [(''Authorization'', api_key c)]"

text \<open>
  \<open>_request\<close>: the \<open>for attempt in range(self._max_retries + 1)\<close> loop runs over the
  list of attempt numbers; falling out of the loop raises ``Request failed''.
\<close>

fun request_loop ::
  "client \<Rightarrow> request \<Rightarrow> int list \<Rightarrow> (pyval, RateLimiter \<times> world) prog" where
  "request_loop c req [] s =
     (Inl (BallDontLieError (''Request failed: '' @ req_method req @ '' '' @ req_url req)), s)"
| "request_loop c req (attempt # rest) s =
     (let backoff = 1 / 2 in
      case wait s of
        (Inl e, s1) \<Rightarrow> (Inl e, s1)
      | (Inr u, (rl, w)) \<Rightarrow>
          let w1 = w\<lparr>sent := sent w @ [req]\<rparr> in
          (case session c req w of
             Raised e \<Rightarrow>
               if attempt \<ge> max_retries c then (Inl e, (rl, w1))
               else
                 (case sleep c backoff w1 of
                    (Inl e', w2) \<Rightarrow> (Inl e', (rl, w2))
                  | (Inr u', w2) \<Rightarrow> request_loop c req rest (rl, w2))
           | Resp resp \<Rightarrow>
               if status_code resp = 429 then
                 (case (case retry_after resp of None \<Rightarrow> Inr backoff | Some f \<Rightarrow> f) of
                    Inl e \<Rightarrow> (Inl e, (rl, w1))
                  | Inr seconds \<Rightarrow>
                      (case sleep c seconds w1 of
                         (Inl e', w2) \<Rightarrow> (Inl e', (rl, w2))
                       | (Inr u', w2) \<Rightarrow> request_loop c req rest (rl, w2)))
               else if \<not> ok resp then
                 (Inl (BallDontLieError
                    (''HTTP '' @ str_int (status_code resp) @ '' for '' @ req_method req @ '' ''
                       @ req_url req)), (rl, w1))
               else (json resp, (rl, w1))))"

definition request ::
  "client \<Rightarrow> string \<Rightarrow> string \<Rightarrow> pydict \<Rightarrow> (pyval, RateLimiter \<times> world) prog" where
  "request c method path params =
     request_loop c
       \<lparr>req_method = method, req_url = base_url c @ path, req_headers = headers c,
        req_params = params, req_timeout = timeout c\<rparr>
       (map int [0 ..< nat (max_retries c + 1)])"

text \<open>
  \<open>paginate\<close> is a generator: what it produces is the list of records it yielded and
  the exception that ended it, if one did.  The \<open>while True\<close> loop need not end, so the
  result is optional: \<open>None\<close> is a loop that runs forever.  \<open>yielded\<close> holds the records
  of the pages already read.
\<close>

type_synonym 'a gen = "'a list \<times> exn option"

definition page_params :: "client \<Rightarrow> pydict \<Rightarrow> int option \<Rightarrow> pydict" where
  "page_params c params cursor =
     (let p = params;
          p = (if map_of p ''per_page'' = None then AList.update ''per_page'' (PInt (per_page c)) p
               else p)
      in case cursor of None \<Rightarrow> p | Some i \<Rightarrow> AList.update ''cursor'' (PInt i) p)"

partial_function (option) paginate_loop ::
  "client \<Rightarrow> string \<Rightarrow> pydict \<Rightarrow> int option \<Rightarrow> pyval list \<Rightarrow> RateLimiter \<times> world
     \<Rightarrow> (pyval gen \<times> (RateLimiter \<times> world)) option" where
  "paginate_loop c path params cursor yielded s =
     (case request c ''GET'' path (page_params c params cursor) s of
        (Inl e, s1) \<Rightarrow> Some ((yielded, Some e), s1)
      | (Inr payload, s1) \<Rightarrow>
          (case ebind (py_get_default payload ''data'' (PList [])) py_iter of
             Inl e \<Rightarrow> Some ((yielded, Some e), s1)
           | Inr rows \<Rightarrow>
               (case ebind (py_get payload ''meta'') (\<lambda>m. py_get (py_or m (PDict [])) ''next_cursor'') of
                  Inl e \<Rightarrow> Some ((yielded @ rows, Some e), s1)
                | Inr next_cursor \<Rightarrow>
                    if \<not> truthy next_cursor then Some ((yielded @ rows, None), s1)
                    else
                      (case py_int next_cursor of
                         Inl e \<Rightarrow> Some ((yielded @ rows, Some e), s1)
                       | Inr i \<Rightarrow> paginate_loop c path params (Some i) (yielded @ rows) s1))))"

definition paginate ::
  "client \<Rightarrow> string \<Rightarrow> pydict \<Rightarrow> RateLimiter \<times> world
     \<Rightarrow> (pyval gen \<times> (RateLimiter \<times> world)) option" where
  "paginate c path params s = paginate_loop c path params None [] s"

section \<open>ingest\_betting\_and\_extras.py\<close>

definition VENDOR_PRIORITY :: "(string \<times> int) list" where
  "VENDOR_PRIORITY =
     [(''draftkings'', 1), (''fanduel'', 2), (''betmgm'', 3), (''bet365'', 4), (''betway'', 5)]"

definition PROP_MAP :: "(string \<times> string) list" where
  "PROP_MAP =
     [(''passing_yards'', ''player_pass_yds''),
      (''rushing_yards'', ''player_rush_yds''),
      (''receiving_yards'', ''player_rec_yds''),
      (''passing_tds'', ''player_pass_tds''),
      (''passing_attempts'', ''player_pass_att''),
      (''rushing_attempts'', ''player_rush_att''),
      (''rushing_receiving_yards'', ''player_rush_rec_yds''),
      (''longest_rush'', ''player_longest_rush''),
      (''longest_reception'', ''player_longest_rec'')]"

text \<open>\<open>VENDOR_PRIORITY.get(vendor, 99)\<close>.\<close>

definition vendor_priority :: "string \<Rightarrow> int" where
  "vendor_priority v = (case map_of VENDOR_PRIORITY v of None \<Rightarrow> 99 | Some p \<Rightarrow> p)"

text \<open>\<open>PROP_MAP.get(raw_type)\<close>: a list or dict is unhashable and raises TypeError, any
  other value that is not one of the keys gives None.\<close>

fun PROP_MAP_get :: "pyval \<Rightarrow> exn + string option" where
  "PROP_MAP_get (PStr s) = Inr (map_of PROP_MAP s)"
| "PROP_MAP_get (PList xs) = Inl TypeError"
| "PROP_MAP_get (PDict d) = Inl TypeError"
| "PROP_MAP_get _ = Inr None"

text \<open>The vendor expression shared by \<open>is_valid_prop\<close> and \<open>map_player_prop\<close>:
  \<open>(row.get("vendor") or row.get("bookmaker") or "").lower()\<close>.\<close>

definition row_vendor :: "pydict \<Rightarrow> exn + string" where
  "row_vendor row =
     py_lower (py_or (py_or (dict_get row ''vendor'') (dict_get row ''bookmaker'')) (PStr []))"

definition is_valid_prop :: "pydict \<Rightarrow> exn + bool" where
  "is_valid_prop row =
     ebind (row_vendor row) (\<lambda>vendor.
       if map_of VENDOR_PRIORITY vendor = None then Inr False
       else ebind (py_get (py_or (dict_get row ''market'') (PDict [])) ''type'') (\<lambda>m_type.
         if m_type = PStr ''over_under'' then Inr True else Inr False))"

text \<open>\<open>map_player_prop\<close> of ingest\_betting\_and\_extras.py; \<open>None\<close> is the Python
  \<open>return None\<close>, and \<open>now\<close> is what \<open>datetime.now(timezone.utc).isoformat()\<close> reads.
  The early returns come before the market and vendor are looked at.\<close>

definition map_player_prop_extras :: "string \<Rightarrow> pydict \<Rightarrow> exn + pydict option" where
  "map_player_prop_extras now row =
     (let game_id = dict_get row ''game_id'';
          raw_type = dict_get row ''prop_type''
      in ebind (PROP_MAP_get raw_type) (\<lambda>db_prop_type.
           if db_prop_type = None \<or> db_prop_type = Some [] then Inr None
           else
             let player_id = dict_get row ''player_id'' in
             if \<not> truthy player_id then Inr None
             else
               let market = py_or (dict_get row ''market'') (PDict []) in
               ebind (row_vendor row) (\<lambda>vendor.
               ebind (py_get market ''type'') (\<lambda>market_type.
               ebind (py_get market ''over_odds'') (\<lambda>over_odds.
               ebind (py_get market ''under_odds'') (\<lambda>under_odds.
                 Inr (Some
                   [(''id'', dict_get row ''id''),
                    (''game_id'', game_id),
                    (''player_id'', player_id),
                    (''vendor'', PStr vendor),
                    (''prop_type'', PStr (the db_prop_type)),
                    (''market_type'', market_type),
                    (''line_value'', dict_get row ''line_value''),
                    (''over_odds'', over_odds),
                    (''under_odds'', under_odds),
                    (''updated_at'', py_or (dict_get row ''updated_at'') (PStr now))
                   ])))))))"

text \<open>
  \<open>_get_best_props\<close>.  \<open>best_map\<close> is a Python dict from the key string
  \<open>f"{player_id}|{prop_type}"\<close> to the mapped row: an association list in insertion order
  (assigning to a key that is present keeps its place).  \<open>str_of\<close> stands for Python's
  \<open>str()\<close> as the f-string applies it to \<open>player_id\<close>.  The vendor and the prop type of a
  mapped row are strings by construction, so they are read back as such.
\<close>

definition prop_key :: "(pyval \<Rightarrow> string) \<Rightarrow> pydict \<Rightarrow> string" where
  "prop_key str_of mapped =
     str_of (dict_get mapped ''player_id'') @ ''|'' @
       (case dict_get mapped ''prop_type'' of PStr s \<Rightarrow> s | _ \<Rightarrow> [])"

definition mapped_vendor :: "pydict \<Rightarrow> string" where
  "mapped_vendor mapped = (case dict_get mapped ''vendor'' of PStr s \<Rightarrow> s | _ \<Rightarrow> [])"

definition best_step ::
  "(pyval \<Rightarrow> string) \<Rightarrow> pydict \<Rightarrow> (string \<times> pydict) list \<Rightarrow> (string \<times> pydict) list" where
  "best_step str_of mapped best_map =
     (let key = prop_key str_of mapped;
          current_priority = vendor_priority (mapped_vendor mapped)
      in case map_of best_map key of
           None \<Rightarrow> AList.update key mapped best_map
         | Some existing \<Rightarrow>
             if current_priority < vendor_priority (mapped_vendor existing)
             then AList.update key mapped best_map
             else best_map)"

fun best_loop ::
  "(pyval \<Rightarrow> string) \<Rightarrow> string \<Rightarrow> pydict list \<Rightarrow> (string \<times> pydict) list
     \<Rightarrow> exn + (string \<times> pydict) list" where
  "best_loop str_of now [] best_map = Inr best_map"
| "best_loop str_of now (row # rest) best_map =
     ebind (is_valid_prop row) (\<lambda>ok.
       if \<not> ok then best_loop str_of now rest best_map
       else ebind (map_player_prop_extras now row) (\<lambda>m.
         case m of
           None \<Rightarrow> best_loop str_of now rest best_map
         | Some mapped \<Rightarrow> best_loop str_of now rest (best_step str_of mapped best_map)))"

definition get_best_props ::
  "(pyval \<Rightarrow> string) \<Rightarrow> string \<Rightarrow> pydict list \<Rightarrow> exn + pydict list" where
  "get_best_props str_of now props_list =
     ebind (best_loop str_of now props_list []) (\<lambda>best_map. Inr (map snd best_map))"

section \<open>balldontlie\_ingestor.py\<close>

text \<open>
  \<open>_now_iso()\<close> reads the wall clock.  In the mappers below \<open>now\<close> is that reading;
  a run is given \<open>clk\<close>, where \<open>clk i\<close> is what the \<open>i\<close>-th call of \<open>_now_iso()\<close>
  in the run returns, and \<open>stamp\<close> maps a list of records in order, one reading each,
  starting at reading \<open>n\<close>.
\<close>

definition stamp ::
  "(string \<Rightarrow> pydict \<Rightarrow> 'a) \<Rightarrow> (nat \<Rightarrow> string) \<Rightarrow> nat \<Rightarrow> pydict list \<Rightarrow> 'a list" where
  "stamp mapper clk n rows = map (\<lambda>(i, r). mapper (clk (n + i)) r) (enumerate 0 rows)"

text \<open>
  \<open>_chunked\<close>.  \<open>chunked_buf\<close> is the loop: the chunks yielded while the items last and
  the buffer left at the end.  A generator argument that ends in an exception gives the
  full chunks before it and then the exception; the unfinished buffer is lost.
\<close>

fun chunked_buf :: "int \<Rightarrow> 'a list \<Rightarrow> 'a list \<Rightarrow> 'a list list \<times> 'a list" where
  "chunked_buf sz buf [] = ([], buf)"
| "chunked_buf sz buf (it # items) =
     (let buf' = buf @ [it] in
      if int (length buf') \<ge> sz
      then (let (chunks, rest) = chunked_buf sz [] items in (buf' # chunks, rest))
      else chunked_buf sz buf' items)"

definition chunked :: "'a list \<Rightarrow> int \<Rightarrow> 'a list list" where
  "chunked items sz =
     (let (chunks, buf) = chunked_buf sz [] items in
      if buf \<noteq> [] then chunks @ [buf] else chunks)"

definition chunked_gen :: "'a gen \<Rightarrow> int \<Rightarrow> 'a list gen" where
  "chunked_gen g sz =
     (case snd g of
        None \<Rightarrow> (chunked (fst g) sz, None)
      | Some e \<Rightarrow> (fst (chunked_buf sz [] (fst g)), Some e))"

text \<open>
  \<open>_valid_rows\<close>, a generator too: the rows it yields, and the ValueError if the count of
  invalid rows passed the threshold.  The message holds \<open>str(required_fields)\<close>; field
  names are rendered in single quotes, as Python does for plain identifiers.
\<close>

fun join_comma :: "string list \<Rightarrow> string" where
  "join_comma [] = []"
| "join_comma [x] = x"
| "join_comma (x # y # ys) = x @ '', '' @ join_comma (y # ys)"

definition str_list :: "string list \<Rightarrow> string" where
  "str_list fs = ''['' @ join_comma (map (\<lambda>f. [CHR 0x27] @ f @ [CHR 0x27]) fs) @ '']''"

definition missing_required :: "string list \<Rightarrow> pydict \<Rightarrow> bool" where
  "missing_required required_fields mapped =
     list_ex (\<lambda>f. dict_get mapped f = PNone) required_fields"

fun valid_rows_loop ::
  "(pydict \<Rightarrow> pydict) \<Rightarrow> string list \<Rightarrow> int \<Rightarrow> int \<Rightarrow> pydict list \<Rightarrow> pydict gen" where
  "valid_rows_loop mapper required_fields abort_threshold invalid [] = ([], None)"
| "valid_rows_loop mapper required_fields abort_threshold invalid (raw # rows) =
     (let mapped = mapper raw in
      if missing_required required_fields mapped then
        (let invalid' = invalid + 1 in
         if invalid' > abort_threshold
         then ([], Some (ValueError
                 (''Too many invalid rows missing '' @ str_list required_fields)))
         else valid_rows_loop mapper required_fields abort_threshold invalid' rows)
      else
        (let (out, err) = valid_rows_loop mapper required_fields abort_threshold invalid rows
         in (mapped # out, err)))"

definition valid_rows ::
  "(pydict \<Rightarrow> pydict) option \<Rightarrow> string list \<Rightarrow> int \<Rightarrow> pydict gen \<Rightarrow> pydict gen" where
  "valid_rows mapper required_fields abort_threshold rows =
     (let mapper' = (case mapper of None \<Rightarrow> (\<lambda>x. x) | Some f \<Rightarrow> f);
          (out, err) = valid_rows_loop mapper' required_fields abort_threshold 0 (fst rows)
      in case err of Some e \<Rightarrow> (out, Some e) | None \<Rightarrow> (out, snd rows))"

definition dict_set_if_none :: "string \<Rightarrow> pyval \<Rightarrow> pydict \<Rightarrow> pydict" where
  "dict_set_if_none k v mapped =
     (if dict_get mapped k = PNone then AList.update k v mapped else mapped)"

definition ensure_defaults :: "int \<Rightarrow> int \<Rightarrow> bool \<Rightarrow> pydict \<Rightarrow> pydict" where
  "ensure_defaults season week postseason mapped =
     dict_set_if_none ''postseason'' (PBool postseason)
       (dict_set_if_none ''week'' (PInt week)
         (dict_set_if_none ''season'' (PInt season) mapped))"

text \<open>\<open>x.get(k).get("id") if isinstance(x.get(k), dict) else None\<close>, and the same for
  another field of the nested object.\<close>

definition sub_field :: "pydict \<Rightarrow> string \<Rightarrow> string \<Rightarrow> pyval" where
  "sub_field x k f = (case dict_get x k of PDict d \<Rightarrow> dict_get d f | _ \<Rightarrow> PNone)"

definition sub_id :: "pydict \<Rightarrow> string \<Rightarrow> pyval" where
  "sub_id x k = sub_field x k ''id''"




definition map_player_season_stats :: "string \<Rightarrow> pydict \<Rightarrow> pydict" where
  "map_player_season_stats now s =
     [(''player_id'', sub_id s ''player''),
      (''season'', dict_get s ''season''),
      (''postseason'', dict_get_default s ''postseason'' (PBool False)),
      (''games_played'', dict_get s ''games_played''),
      (''passing_completions'', dict_get s ''passing_completions''),
      (''passing_attempts'', dict_get s ''passing_attempts''),
      (''passing_yards'', dict_get s ''passing_yards''),
      (''passing_touchdowns'', dict_get s ''passing_touchdowns''),
      (''passing_interceptions'', dict_get s ''passing_interceptions''),
      (''qbr'', dict_get s ''qbr''),
      (''rushing_attempts'', dict_get s ''rushing_attempts''),
      (''rushing_yards'', dict_get s ''rushing_yards''),
      (''rushing_touchdowns'', dict_get s ''rushing_touchdowns''),
      (''receptions'', dict_get s ''receptions''),
      (''receiving_yards'', dict_get s ''receiving_yards''),
      (''receiving_touchdowns'', dict_get s ''receiving_touchdowns''),
      (''receiving_targets'', dict_get s ''receiving_targets''),
      (''updated_at'', PStr now)]"

definition map_player_game_stats :: "string \<Rightarrow> pydict \<Rightarrow> pydict" where
  "map_player_game_stats now s =
     [(''player_id'', sub_id s ''player''),
      (''game_id'', sub_id s ''game''),
      (''season'', sub_field s ''game'' ''season''),
      (''week'', sub_field s ''game'' ''week''),
      (''team_id'', sub_id s ''team''),
      (''passing_completions'', dict_get s ''passing_completions''),
      (''passing_attempts'', dict_get s ''passing_attempts''),
      (''passing_yards'', dict_get s ''passing_yards''),
      (''passing_touchdowns'', dict_get s ''passing_touchdowns''),
      (''passing_interceptions'', dict_get s ''passing_interceptions''),
      (''qbr'', dict_get s ''qbr''),
      (''rushing_attempts'', dict_get s ''rushing_attempts''),
      (''rushing_yards'', dict_get s ''rushing_yards''),
      (''rushing_touchdowns'', dict_get s ''rushing_touchdowns''),
      (''receptions'', dict_get s ''receptions''),
      (''receiving_yards'', dict_get s ''receiving_yards''),
      (''receiving_touchdowns'', dict_get s ''receiving_touchdowns''),
      (''receiving_targets'', dict_get s ''receiving_targets''),
      (''updated_at'', PStr now)]"

definition map_adv_receiving :: "string \<Rightarrow> pydict \<Rightarrow> pydict" where
  "map_adv_receiving now s =
     [(''player_id'', sub_id s ''player''),
      (''season'', dict_get s ''season''),
      (''week'', dict_get s ''week''),
      (''postseason'', dict_get_default s ''postseason'' (PBool False)),
      (''receptions'', dict_get s ''receptions''),
      (''targets'', dict_get s ''targets''),
      (''yards'', dict_get s ''yards''),
      (''avg_yac'', dict_get s ''avg_yac''),
      (''avg_expected_yac'', dict_get s ''avg_expected_yac''),
      (''avg_yac_above_expectation'', dict_get s ''avg_yac_above_expectation''),
      (''catch_percentage'', dict_get s ''catch_percentage''),
      (''avg_cushion'', dict_get s ''avg_cushion''),
      (''avg_separation'', dict_get s ''avg_separation''),
      (''percent_share_of_intended_air_yards'', dict_get s ''percent_share_of_intended_air_yards''),
      (''updated_at'', PStr now)]"

definition map_adv_rushing :: "string \<Rightarrow> pydict \<Rightarrow> pydict" where
  "map_adv_rushing now s =
     [(''player_id'', sub_id s ''player''),
      (''season'', dict_get s ''season''),
      (''week'', dict_get s ''week''),
      (''postseason'', dict_get_default s ''postseason'' (PBool False)),
      (''rush_attempts'', dict_get s ''rush_attempts''),
      (''rush_yards'', dict_get s ''rush_yards''),
      (''efficiency'', dict_get s ''efficiency''),
      (''avg_rush_yards'', dict_get s ''avg_rush_yards''),
      (''expected_rush_yards'', dict_get s ''expected_rush_yards''),
      (''rush_yards_over_expected'', dict_get s ''rush_yards_over_expected''),
      (''rush_yards_over_expected_per_att'', dict_get s ''rush_yards_over_expected_per_att''),
      (''rush_touchdowns'', dict_get s ''rush_touchdowns''),
      (''avg_time_to_los'', dict_get s ''avg_time_to_los''),
      (''rush_pct_over_expected'', dict_get s ''rush_pct_over_expected''),
      (''percent_attempts_gte_eight_defenders'', dict_get s ''percent_attempts_gte_eight_defenders''),
      (''updated_at'', PStr now)]"

definition map_adv_passing :: "string \<Rightarrow> pydict \<Rightarrow> pydict" where
  "map_adv_passing now s =
     [(''player_id'', sub_id s ''player''),
      (''season'', dict_get s ''season''),
      (''week'', dict_get s ''week''),
      (''postseason'', dict_get_default s ''postseason'' (PBool False)),
      (''attempts'', dict_get s ''attempts''),
      (''completions'', dict_get s ''completions''),
      (''pass_yards'', dict_get s ''pass_yards''),
      (''pass_touchdowns'', dict_get s ''pass_touchdowns''),
      (''interceptions'', dict_get s ''interceptions''),
      (''passer_rating'', dict_get s ''passer_rating''),
      (''completion_percentage_above_expectation'', dict_get s ''completion_percentage_above_expectation''),
      (''avg_time_to_throw'', dict_get s ''avg_time_to_throw''),
      (''avg_intended_air_yards'', dict_get s ''avg_intended_air_yards''),
      (''avg_completed_air_yards'', dict_get s ''avg_completed_air_yards''),
      (''aggressiveness'', dict_get s ''aggressiveness''),
      (''expected_completion_percentage'', dict_get s ''expected_completion_percentage''),
      (''avg_air_distance'', dict_get s ''avg_air_distance''),
      (''avg_air_yards_differential'', dict_get s ''avg_air_yards_differential''),
      (''avg_air_yards_to_sticks'', dict_get s ''avg_air_yards_to_sticks''),
      (''updated_at'', PStr now)]"

definition should_ingest_prop :: "pydict \<Rightarrow> exn + bool" where
  "should_ingest_prop prop =
     (let market = dict_get_default prop ''market'' (PDict [])
      in ebind (py_get_default market ''type'' (PStr [])) (\<lambda>market_type.
           let prop_type = dict_get_default prop ''prop_type'' (PStr []) in
           if market_type = PStr ''over_under'' then Inr True
           else if market_type = PStr ''milestone'' \<and> prop_type = PStr ''anytime_td''
           then Inr True
           else Inr False))"

text \<open>\<open>map_player_prop\<close> as the module ends up defining it (the later of its two
  definitions replaces the earlier one).\<close>

definition map_player_prop :: "string \<Rightarrow> pydict \<Rightarrow> exn + pydict" where
  "map_player_prop now p =
     (let market = dict_get_default p ''market'' (PDict [])
      in ebind (py_get_default market ''type'' (PStr [])) (\<lambda>market_type.
         ebind (if market_type = PStr ''over_under'' then py_get market ''over_odds''
                else Inr PNone) (\<lambda>over_odds.
         ebind (if market_type = PStr ''over_under'' then py_get market ''under_odds''
                else Inr PNone) (\<lambda>under_odds.
         ebind (if market_type = PStr ''milestone'' then py_get market ''odds''
                else Inr PNone) (\<lambda>milestone_odds.
           Inr [(''id'', dict_get p ''id''),
                (''game_id'', dict_get p ''game_id''),
                (''player_id'', dict_get p ''player_id''),
                (''vendor'', dict_get p ''vendor''),
                (''prop_type'', dict_get p ''prop_type''),
                (''market_type'', market_type),
                (''line_value'', dict_get p ''line_value''),
                (''over_odds'', over_odds),
                (''under_odds'', under_odds),
                (''milestone_odds'', milestone_odds),
                (''updated_at'', PStr now)])))))"

text \<open>
  The two collaborators every ingest function is handed.  \<open>bdl\<close> is the client as the
  ingest functions use it: each iterator is the generator it returns for its arguments, on
  a fixed upstream.  \<open>supabase.upsert(table, rows, on_conflict=...)\<close> acts on a store of
  type \<open>'db\<close> and returns the number of rows written, or fails with a message; the store
  client raises its own exception, here \<open>StoreError\<close>, never the fetch client's
  BallDontLieError.
\<close>

record bdl =
  list_teams :: "exn + pydict list"
  iter_players :: "pydict gen"
  iter_games :: "int list \<Rightarrow> int list option \<Rightarrow> pydict gen"
  iter_player_season_stats :: "int \<Rightarrow> pydict gen"
  iter_player_game_stats :: "int list \<Rightarrow> pydict gen"
  iter_advanced_receiving :: "int \<Rightarrow> int \<Rightarrow> bool \<Rightarrow> pydict gen"
  iter_advanced_rushing :: "int \<Rightarrow> int \<Rightarrow> bool \<Rightarrow> pydict gen"
  iter_advanced_passing :: "int \<Rightarrow> int \<Rightarrow> bool \<Rightarrow> pydict gen"
  iter_player_props :: "int \<Rightarrow> string list option \<Rightarrow> pydict gen"

type_synonym 'db upsert_fn = "string \<Rightarrow> pydict list \<Rightarrow> string \<Rightarrow> 'db \<Rightarrow> (string + int) \<times> 'db"

definition call_upsert ::
  "'db upsert_fn \<Rightarrow> string \<Rightarrow> pydict list \<Rightarrow> string \<Rightarrow> (int, 'db) prog" where
  "call_upsert upsert table rows on_conflict db =
     (case upsert table rows on_conflict db of
        (Inl msg, db') \<Rightarrow> (Inl (StoreError msg), db')
      | (Inr n, db') \<Rightarrow> (Inr n, db'))"

text \<open>
  The loop \<open>for chunk in _chunked(rows, batch_size): count += supabase.upsert(table, chunk,
  on_conflict=...)\<close>: the count reached, the exception that stopped it if one did, and the
  store.  An exception of the row generator arrives after the chunks before it are written.
\<close>

fun upsert_chunks ::
  "'db upsert_fn \<Rightarrow> string \<Rightarrow> string \<Rightarrow> pydict list list \<Rightarrow> int \<Rightarrow> 'db
     \<Rightarrow> (int \<times> exn option) \<times> 'db" where
  "upsert_chunks upsert table on_conflict [] count db = ((count, None), db)"
| "upsert_chunks upsert table on_conflict (chunk # chunks) count db =
     (case call_upsert upsert table chunk on_conflict db of
        (Inl e, db') \<Rightarrow> ((count, Some e), db')
      | (Inr n, db') \<Rightarrow> upsert_chunks upsert table on_conflict chunks (count + n) db')"

definition upsert_stream ::
  "'db upsert_fn \<Rightarrow> string \<Rightarrow> string \<Rightarrow> pydict gen \<Rightarrow> int \<Rightarrow> int \<Rightarrow> 'db
     \<Rightarrow> (int \<times> exn option) \<times> 'db" where
  "upsert_stream upsert table on_conflict rows batch_size count db =
     (let (chunks, err) = chunked_gen rows batch_size in
      case upsert_chunks upsert table on_conflict chunks count db of
        ((count', Some e), db') \<Rightarrow> ((count', Some e), db')
      | ((count', None), db') \<Rightarrow> ((count', err), db'))"


definition finish_loop :: "(int \<times> exn option) \<times> 'db \<Rightarrow> (exn + int) \<times> 'db" where
  "finish_loop r =
     (case r of ((count, Some e), db) \<Rightarrow> (Inl e, db) | ((count, None), db) \<Rightarrow> (Inr count, db))"


text \<open>
  \<open>ingest_stats_and_advanced\<close>.  One \<open>try ... except BallDontLieError\<close> block of the
  advanced statistics is \<open>adv_stage\<close>: a BallDontLieError is logged and swallowed, with the
  count as far as it got, and any other exception goes on.  \<open>adv_three\<close> is the three
  blocks (receiving, rushing, passing) for one season, week and postseason flag; counts are
  the triple (receiving, rushing, passing), and \<open>n\<close> is the next clock reading.
\<close>

definition adv_stage ::
  "'db upsert_fn \<Rightarrow> string \<Rightarrow> pydict list \<Rightarrow> exn option \<Rightarrow> int \<Rightarrow> int \<Rightarrow> bool \<Rightarrow> int \<Rightarrow> int
     \<Rightarrow> int \<Rightarrow> (int, 'db) prog" where
  "adv_stage upsert table mapped err season week postseason abort_threshold batch_size count db =
     (case upsert_stream upsert table ''player_id,season,week,postseason''
             (valid_rows (Some (ensure_defaults season week postseason))
                [''player_id'', ''season'', ''week'', ''postseason''] abort_threshold
                (mapped, err))
             batch_size count db of
        ((count', Some (BallDontLieError msg)), db') \<Rightarrow> (Inr count', db')
      | ((count', Some e), db') \<Rightarrow> (Inl e, db')
      | ((count', None), db') \<Rightarrow> (Inr count', db'))"

definition adv_three ::
  "'db upsert_fn \<Rightarrow> bdl \<Rightarrow> (nat \<Rightarrow> string) \<Rightarrow> int \<Rightarrow> int \<Rightarrow> bool \<Rightarrow> int \<Rightarrow> int
     \<Rightarrow> (int \<times> int \<times> int) \<times> nat \<Rightarrow> ((int \<times> int \<times> int) \<times> nat, 'db) prog" where
  "adv_three upsert b clk season week postseason abort_threshold batch_size acc =
     (let ((rec_n, rush_n, pass_n), n) = acc;
          g1 = iter_advanced_receiving b season week postseason;
          n1 = n + length (fst g1);
          g2 = iter_advanced_rushing b season week postseason;
          n2 = n1 + length (fst g2);
          g3 = iter_advanced_passing b season week postseason;
          n3 = n2 + length (fst g3)
      in
      sbind (adv_stage upsert ''nfl_advanced_receiving_stats''
               (stamp map_adv_receiving clk n (fst g1)) (snd g1)
               season week postseason abort_threshold batch_size rec_n) (\<lambda>rec_n'.
      sbind (adv_stage upsert ''nfl_advanced_rushing_stats''
               (stamp map_adv_rushing clk n1 (fst g2)) (snd g2)
               season week postseason abort_threshold batch_size rush_n) (\<lambda>rush_n'.
      sbind (adv_stage upsert ''nfl_advanced_passing_stats''
               (stamp map_adv_passing clk n2 (fst g3)) (snd g3)
               season week postseason abort_threshold batch_size pass_n) (\<lambda>pass_n'.
      sreturn ((rec_n', rush_n', pass_n'), n3)))))"

fun adv_weeks ::
  "'db upsert_fn \<Rightarrow> bdl \<Rightarrow> (nat \<Rightarrow> string) \<Rightarrow> int \<Rightarrow> int \<Rightarrow> int \<Rightarrow> int list
     \<Rightarrow> (int \<times> int \<times> int) \<times> nat \<Rightarrow> ((int \<times> int \<times> int) \<times> nat, 'db) prog" where
  "adv_weeks upsert b clk season abort_threshold batch_size [] acc = sreturn acc"
| "adv_weeks upsert b clk season abort_threshold batch_size (week # weeks) acc =
     sbind (adv_three upsert b clk season week False abort_threshold batch_size acc)
       (adv_weeks upsert b clk season abort_threshold batch_size weeks)"

fun adv_seasons ::
  "'db upsert_fn \<Rightarrow> bdl \<Rightarrow> (nat \<Rightarrow> string) \<Rightarrow> int list \<Rightarrow> bool \<Rightarrow> int \<Rightarrow> int \<Rightarrow> int list
     \<Rightarrow> (int \<times> int \<times> int) \<times> nat \<Rightarrow> ((int \<times> int \<times> int) \<times> nat, 'db) prog" where
  "adv_seasons upsert b clk weeks include_postseason abort_threshold batch_size [] acc =
     sreturn acc"
| "adv_seasons upsert b clk weeks include_postseason abort_threshold batch_size
     (season # seasons) acc =
     sbind (adv_weeks upsert b clk season abort_threshold batch_size weeks acc) (\<lambda>acc1.
     sbind (if include_postseason
            then adv_three upsert b clk season 0 True abort_threshold batch_size acc1
            else sreturn acc1)
       (adv_seasons upsert b clk weeks include_postseason abort_threshold batch_size seasons))"

text \<open>The season statistics loop: every mapped row goes to the sink in chunks.\<close>

fun season_stats_loop ::
  "'db upsert_fn \<Rightarrow> bdl \<Rightarrow> (nat \<Rightarrow> string) \<Rightarrow> int \<Rightarrow> int list \<Rightarrow> int \<times> nat
     \<Rightarrow> (int \<times> nat, 'db) prog" where
  "season_stats_loop upsert b clk batch_size [] acc = sreturn acc"
| "season_stats_loop upsert b clk batch_size (season # seasons) acc =
     (let (count, n) = acc;
          g = iter_player_season_stats b season
      in
      sbind (\<lambda>db. finish_loop (upsert_stream upsert ''nfl_player_season_stats''
               ''player_id,season,postseason''
               (stamp map_player_season_stats clk n (fst g), snd g) batch_size count db))
        (\<lambda>count'. season_stats_loop upsert b clk batch_size seasons
                     (count', n + length (fst g))))"

record StatsIngestSummary =
  season_stats_upserted :: int
  game_stats_upserted :: int
  adv_receiving_upserted :: int
  adv_rushing_upserted :: int
  adv_passing_upserted :: int

definition ingest_stats_and_advanced ::
  "(nat \<Rightarrow> string) \<Rightarrow> int list \<Rightarrow> 'db upsert_fn \<Rightarrow> bdl \<Rightarrow> int \<Rightarrow> bool \<Rightarrow> bool \<Rightarrow> bool
     \<Rightarrow> int list option \<Rightarrow> bool \<Rightarrow> int \<Rightarrow> (StatsIngestSummary, 'db) prog" where
  "ingest_stats_and_advanced clk seasons upsert b batch_size include_season_stats
     include_game_stats include_advanced advanced_weeks advanced_include_postseason
     invalid_abort_threshold =
     sbind (if include_season_stats then season_stats_loop upsert b clk batch_size seasons (0, 0)
            else sreturn (0, 0)) (\<lambda>(season_n, n1).
       let g = iter_player_game_stats b seasons;
           n2 = (if include_game_stats then n1 + length (fst g) else n1);
           weeks = (case advanced_weeks of None \<Rightarrow> [0] | Some ws \<Rightarrow> ws)
       in
       sbind (if include_game_stats
              then (\<lambda>db. finish_loop (upsert_stream upsert ''nfl_player_game_stats''
                      ''player_id,game_id''
                      (valid_rows None [''player_id'', ''game_id''] invalid_abort_threshold
                         (stamp map_player_game_stats clk n1 (fst g), snd g))
                      batch_size 0 db))
              else sreturn 0) (\<lambda>game_n.
       sbind (if include_advanced
              then adv_seasons upsert b clk weeks advanced_include_postseason
                     invalid_abort_threshold batch_size seasons ((0, 0, 0), n2)
              else sreturn ((0, 0, 0), n2)) (\<lambda>((rec_n, rush_n, pass_n), n3).
       sreturn \<lparr>season_stats_upserted = season_n, game_stats_upserted = game_n,
                adv_receiving_upserted = rec_n, adv_rushing_upserted = rush_n,
                adv_passing_upserted = pass_n\<rparr>)))"

text \<open>
  \<open>ingest_player_props_filtered\<close>.  \<open>list(bdl.iter_player_props(...))\<close> raises what the
  generator raises; the filter and the mapping are list comprehensions, so every kept record
  is mapped (one clock reading each) before the first chunk is written.  The
  \<open>try ... except BallDontLieError\<close> around one game is \<open>props_game\<close>.
\<close>

fun efilter :: "('a \<Rightarrow> exn + bool) \<Rightarrow> 'a list \<Rightarrow> exn + 'a list" where
  "efilter f [] = Inr []"
| "efilter f (x # xs) =
     ebind (f x) (\<lambda>keep. ebind (efilter f xs) (\<lambda>ys. Inr (if keep then x # ys else ys)))"

fun esequence :: "(exn + 'a) list \<Rightarrow> exn + 'a list" where
  "esequence [] = Inr []"
| "esequence (m # ms) = ebind m (\<lambda>x. ebind (esequence ms) (\<lambda>xs. Inr (x # xs)))"

fun upsert_valid_chunks ::
  "'db upsert_fn \<Rightarrow> pydict list list \<Rightarrow> int \<Rightarrow> (int, 'db) prog" where
  "upsert_valid_chunks upsert [] count = sreturn count"
| "upsert_valid_chunks upsert (chunk # chunks) count =
     (let valid = filter (\<lambda>r. truthy (dict_get r ''player_id'') \<and> truthy (dict_get r ''game_id''))
                    chunk
      in if valid \<noteq> []
         then sbind (call_upsert upsert ''nfl_player_props'' valid ''id'')
                (\<lambda>n. upsert_valid_chunks upsert chunks (count + n))
         else upsert_valid_chunks upsert chunks count)"

definition props_try ::
  "'db upsert_fn \<Rightarrow> bdl \<Rightarrow> (nat \<Rightarrow> string) \<Rightarrow> string list option \<Rightarrow> int \<Rightarrow> int \<Rightarrow> int \<times> nat
     \<Rightarrow> (int \<times> nat, 'db) prog" where
  "props_try upsert b clk vendors batch_size game_id acc =
     (let (props_upserted, n) = acc;
          g = iter_player_props b game_id vendors
      in
      sbind (slift (case snd g of Some e \<Rightarrow> Inl e | None \<Rightarrow> Inr (fst g))) (\<lambda>raw_props.
      sbind (slift (efilter should_ingest_prop raw_props)) (\<lambda>filtered.
      sbind (slift (esequence (stamp map_player_prop clk n filtered))) (\<lambda>mapped.
      sbind (upsert_valid_chunks upsert (chunked mapped batch_size) props_upserted)
        (\<lambda>props_upserted'. sreturn (props_upserted', n + length filtered))))))"

definition props_game ::
  "'db upsert_fn \<Rightarrow> bdl \<Rightarrow> (nat \<Rightarrow> string) \<Rightarrow> string list option \<Rightarrow> int \<Rightarrow> int \<Rightarrow> int \<times> nat
     \<Rightarrow> (int \<times> nat, 'db) prog" where
  "props_game upsert b clk vendors batch_size game_id acc db =
     (case props_try upsert b clk vendors batch_size game_id acc db of
        (Inl (BallDontLieError msg), db') \<Rightarrow> (Inr acc, db')
      | r \<Rightarrow> r)"

fun props_loop ::
  "'db upsert_fn \<Rightarrow> bdl \<Rightarrow> (nat \<Rightarrow> string) \<Rightarrow> string list option \<Rightarrow> int \<Rightarrow> int list \<Rightarrow> int \<times> nat
     \<Rightarrow> (int \<times> nat, 'db) prog" where
  "props_loop upsert b clk vendors batch_size [] acc = sreturn acc"
| "props_loop upsert b clk vendors batch_size (game_id # game_ids) acc =
     sbind (props_game upsert b clk vendors batch_size game_id acc)
       (props_loop upsert b clk vendors batch_size game_ids)"

definition ingest_player_props_filtered ::
  "(nat \<Rightarrow> string) \<Rightarrow> int list \<Rightarrow> 'db upsert_fn \<Rightarrow> bdl \<Rightarrow> string list option \<Rightarrow> int
     \<Rightarrow> (int, 'db) prog" where
  "ingest_player_props_filtered clk game_ids upsert b vendors batch_size =
     sbind (props_loop upsert b clk vendors batch_size game_ids (0, 0))
       (\<lambda>acc. sreturn (fst acc))"

section \<open>The store\<close>




type_synonym store = "string \<Rightarrow> pydict list"


text \<open>A sink that only records what it is handed: the table, the rows and the conflict key
  of every upsert call, oldest first.\<close>

definition recording_upsert :: "(string \<times> pydict list \<times> string) list upsert_fn" where
  "recording_upsert table rows on_conflict calls =
     (Inr (int (length rows)), calls @ [(table, rows, on_conflict)])"

definition failing_upsert :: "(string \<times> pydict list \<times> string) list upsert_fn" where
  "failing_upsert table rows on_conflict calls = (Inl ''store unavailable'', calls)"

section \<open>Vocabulary of the properties\<close>

text \<open>\<open>str()\<close> on None, a bool, an int and a str.  The rendering of floats and containers
  is not modelled (the empty string stands in for it); nothing below depends on it, since
  the results on \<open>get_best_props\<close> hold for every \<open>str_of\<close>.\<close>

fun py_str :: "pyval \<Rightarrow> string" where
  "py_str PNone = ''None''"
| "py_str (PBool b) = (if b then ''True'' else ''False'')"
| "py_str (PInt i) = str_int i"
| "py_str (PStr s) = s"
| "py_str _ = []"

text \<open>What \<open>_get_best_props\<close> does with one record before the comparison: the mapped row
  if the record passes \<open>is_valid_prop\<close> and \<open>map_player_prop\<close>, nothing if one of them
  rejects it.  \<open>candidates\<close> are the mapped rows of a list of records, in input order.\<close>

definition candidate :: "string \<Rightarrow> pydict \<Rightarrow> exn + pydict option" where
  "candidate now row =
     ebind (is_valid_prop row) (\<lambda>ok. if \<not> ok then Inr None else map_player_prop_extras now row)"

definition candidates :: "string \<Rightarrow> pydict list \<Rightarrow> pydict list" where
  "candidates now props_list =
     concat (map (\<lambda>row. case candidate now row of Inr (Some m) \<Rightarrow> [m] | _ \<Rightarrow> []) props_list)"

definition priority_of :: "pydict \<Rightarrow> int" where
  "priority_of mapped = vendor_priority (mapped_vendor mapped)"

text \<open>What holds of \<open>best_map\<close> once the candidates \<open>seen\<close> have gone through the loop:
  its keys are distinct; an entry is filed under its own key, is one of the candidates seen,
  has the lowest priority value of those with its key and is the first of them with that
  value; and every candidate seen has its key in the map.\<close>

definition best_inv ::
  "(pydict \<Rightarrow> string) \<Rightarrow> (string \<times> pydict) list \<Rightarrow> pydict list \<Rightarrow> bool" where
  "best_inv key best_map seen \<longleftrightarrow>
     distinct (map fst best_map)
     \<and> (\<forall>k m. map_of best_map k = Some m \<longrightarrow>
           k = key m \<and> m \<in> set seen
           \<and> (\<forall>c \<in> set seen. key c = k \<longrightarrow> priority_of m \<le> priority_of c)
           \<and> find (\<lambda>c. key c = k \<and> priority_of c = priority_of m) seen = Some m)
     \<and> (\<forall>c \<in> set seen. map_of best_map (key c) \<noteq> None)"

text \<open>\<open>K\<close> consecutive calls of \<open>wait()\<close> on one limiter: before each call the caller lets
  some time pass (its own work); after each call the timestamp the limiter holds and the
  clock at that moment are noted.\<close>

fun waits :: "real list \<Rightarrow> (((real \<times> real) list), RateLimiter \<times> world) prog" where
  "waits [] s = (Inr [], s)"
| "waits (gap # gaps) s =
     (case wait (fst s, (snd s)\<lparr>clock := clock (snd s) + gap\<rparr>) of
        (Inl e, s1) \<Rightarrow> (Inl e, s1)
      | (Inr u, s1) \<Rightarrow>
          (case waits gaps s1 of
             (Inl e, s2) \<Rightarrow> (Inl e, s2)
           | (Inr notes, s2) \<Rightarrow> (Inr ((last_ts (fst s1), clock (snd s1)) # notes), s2)))"

text \<open>The limiter lets the next call through without sleeping: it has not been used yet,
  or the interval has passed since the time it holds.\<close>

definition limiter_ready :: "RateLimiter \<Rightarrow> world \<Rightarrow> bool" where
  "limiter_ready rl w \<longleftrightarrow> last_ts rl \<le> 0 \<or> min_interval_seconds rl \<le> clock w - last_ts rl"

text \<open>The request that \<open>_request\<close> sends for a method, a path and query parameters.\<close>

definition request_of :: "client \<Rightarrow> string \<Rightarrow> string \<Rightarrow> pydict \<Rightarrow> request" where
  "request_of c method path params =
     \<lparr>req_method = method, req_url = base_url c @ path, req_headers = headers c,
      req_params = params, req_timeout = timeout c\<rparr>"

text \<open>The client and the limiter that \<open>BallDontLieNFLClient(api_key=...)\<close> builds when
  only the key and the session are given: 3 retries, 100 records per page, a timeout of 30
  seconds, the module's \<open>_sleep\<close>, and a limiter with an interval of 0.11 seconds.\<close>

definition default_client :: "string \<Rightarrow> (request \<Rightarrow> world \<Rightarrow> outcome) \<Rightarrow> client" where
  "default_client key sess =
     \<lparr>api_key = key, base_url = ''https://api.balldontlie.io/nfl/v1'', session = sess,
      timeout = 30, max_retries = 3, per_page = 100, sleep = sleep_default\<rparr>"

definition default_limiter :: RateLimiter where
  "default_limiter = \<lparr>min_interval_seconds = 11 / 100, rl_sleep = sleep_default, last_ts = 0\<rparr>"

text \<open>Sessions to run the client against: one on which every call raises, one that answers
  the first calls from a list and every later call with a last outcome, and one that
  answers by the cursor of the request.\<close>

definition failing_session :: "exn \<Rightarrow> request \<Rightarrow> world \<Rightarrow> outcome" where
  "failing_session e req w = Raised e"

definition script_session :: "outcome list \<Rightarrow> outcome \<Rightarrow> request \<Rightarrow> world \<Rightarrow> outcome" where
  "script_session first final req w =
     (if length (sent w) < length first then first ! length (sent w) else final)"

definition cursor_session :: "(pyval \<times> response) list \<Rightarrow> request \<Rightarrow> world \<Rightarrow> outcome" where
  "cursor_session pages req w =
     (case map_of pages (dict_get (req_params req) ''cursor'') of
        Some resp \<Rightarrow> Resp resp
      | None \<Rightarrow> Resp \<lparr>status_code = 404, retry_after = None, json = Inr PNone\<rparr>)"

text \<open>An outcome of one attempt after which \<open>_request\<close> sleeps \<open>d\<close> seconds and goes on to
  the next attempt: the session raised, and \<open>d\<close> is the fixed backoff; or the response has
  status 429, and \<open>d\<close> is what \<open>float()\<close> reads from its \<open>Retry-After\<close> header, the
  fixed backoff when it has none.  The delay is not negative, so that the sleep returns.\<close>

definition retried :: "outcome \<Rightarrow> real \<Rightarrow> bool" where
  "retried out d \<longleftrightarrow>
     0 \<le> d \<and>
     (case out of
        Raised e \<Rightarrow> d = 1 / 2
      | Resp r \<Rightarrow> status_code r = 429
                 \<and> (case retry_after r of None \<Rightarrow> Inr (1 / 2) | Some f \<Rightarrow> f) = Inr d)"

text \<open>Upstreams for the ingest functions: one with nothing in it; one whose player props
  are given per game id; one whose season statistics are the same records for every season.
  A clock that always reads the same time.  And, of the calls that a recording sink was
  handed, the table and one field of every row.\<close>

definition empty_bdl :: bdl where
  "empty_bdl =
     \<lparr>list_teams = Inr [], iter_players = ([], None),
      iter_games = (\<lambda>seasons weeks. ([], None)),
      iter_player_season_stats = (\<lambda>season. ([], None)),
      iter_player_game_stats = (\<lambda>seasons. ([], None)),
      iter_advanced_receiving = (\<lambda>season week postseason. ([], None)),
      iter_advanced_rushing = (\<lambda>season week postseason. ([], None)),
      iter_advanced_passing = (\<lambda>season week postseason. ([], None)),
      iter_player_props = (\<lambda>game_id vendors. ([], None))\<rparr>"

definition props_upstream :: "(int \<times> pydict gen) list \<Rightarrow> bdl" where
  "props_upstream by_game =
     empty_bdl\<lparr>iter_player_props :=
       (\<lambda>game_id vendors. case map_of by_game game_id of None \<Rightarrow> ([], None) | Some g \<Rightarrow> g)\<rparr>"

definition season_stats_upstream :: "pydict gen \<Rightarrow> bdl" where
  "season_stats_upstream g = empty_bdl\<lparr>iter_player_season_stats := (\<lambda>season. g)\<rparr>"

definition game_stats_upstream :: "pydict gen \<Rightarrow> bdl" where
  "game_stats_upstream g = empty_bdl\<lparr>iter_player_game_stats := (\<lambda>seasons. g)\<rparr>"

definition frozen_clock :: "string \<Rightarrow> nat \<Rightarrow> string" where
  "frozen_clock now i = now"

definition forwarded_field ::
  "string \<Rightarrow> (string \<times> pydict list \<times> string) list \<Rightarrow> (string \<times> pyval list) list" where
  "forwarded_field f calls = map (\<lambda>call. (fst call, map (\<lambda>r. dict_get r f) (fst (snd call)))) calls"






section \<open>Properties\<close>

subsection \<open>Results and lookups\<close>

lemma ebind_Inr_iff: "ebind m f = Inr y \<longleftrightarrow> (\<exists>x. m = Inr x \<and> f x = Inr y)"
  by (cases m) (simp_all add: ebind_def)

lemma ebind_Inl_iff: "ebind m f = Inl e \<longleftrightarrow> m = Inl e \<or> (\<exists>x. m = Inr x \<and> f x = Inl e)"
  by (cases m) (simp_all add: ebind_def)

lemma py_get_Inr_iff: "py_get v k = Inr y \<longleftrightarrow> (\<exists>d. v = PDict d \<and> dict_get d k = y)"
  by (cases v) auto

lemma dict_get_not_None: "dict_get d k = v \<Longrightarrow> v \<noteq> PNone \<Longrightarrow> map_of d k = Some v"
  by (auto simp: dict_get_def split: option.splits)

subsection \<open>The two prop filters\<close>

text \<open>
  C10, as stated, fails: \<open>should_ingest_prop\<close> never looks at the vendor, so an over/under
  prop of a vendor outside \<open>VENDOR_PRIORITY\<close> passes it and fails \<open>is_valid_prop\<close>.
\<close>

theorem prop_filters_differ:
  "should_ingest_prop
     [(''vendor'', PStr ''caesars''), (''market'', PDict [(''type'', PStr ''over_under'')])]
     = Inr True
   \<and> is_valid_prop
     [(''vendor'', PStr ''caesars''), (''market'', PDict [(''type'', PStr ''over_under'')])]
     = Inr False"
  by code_simp

text \<open>
  C10, amended: the filters agree in one direction only.  Every prop record that
  \<open>is_valid_prop\<close> accepts is accepted by \<open>should_ingest_prop\<close>.
\<close>

theorem is_valid_prop_imp_should_ingest_prop:
  assumes "is_valid_prop row = Inr True"
  shows "should_ingest_prop row = Inr True"
proof -
  from assms obtain d where
    d: "py_or (dict_get row ''market'') (PDict []) = PDict d"
    and t: "dict_get d ''type'' = PStr ''over_under''"
    by (auto simp: is_valid_prop_def ebind_Inr_iff py_get_Inr_iff split: if_splits)
  from t have m: "map_of d ''type'' = Some (PStr ''over_under'')"
    by (rule dict_get_not_None) simp
  have "d \<noteq> []" using m by auto
  with d have "dict_get row ''market'' = PDict d"
    by (auto simp: py_or_def split: if_splits)
  then have "map_of row ''market'' = Some (PDict d)"
    by (rule dict_get_not_None) simp
  then show ?thesis using m
    by (simp add: should_ingest_prop_def dict_get_default_def ebind_def)
qed

theorem is_valid_prop_imp_should_ingest_prop_witness:
  "is_valid_prop
     [(''vendor'', PStr ''DraftKings''), (''market'', PDict [(''type'', PStr ''over_under'')])]
     = Inr True
   \<and> should_ingest_prop
     [(''vendor'', PStr ''DraftKings''), (''market'', PDict [(''type'', PStr ''over_under'')])]
     = Inr True"
proof -
  have h: "is_valid_prop
     [(''vendor'', PStr ''DraftKings''), (''market'', PDict [(''type'', PStr ''over_under'')])]
     = Inr True"
    by code_simp
  from is_valid_prop_imp_should_ingest_prop [OF h] h show ?thesis by simp
qed

subsection \<open>The validator\<close>

lemma valid_rows_loop_ok:
  "length (filter (missing_required req) (map m rows)) = 0
     \<or> cnt + int (length (filter (missing_required req) (map m rows))) \<le> thr
   \<Longrightarrow> valid_rows_loop m req thr cnt rows
         = (filter (\<lambda>r. \<not> missing_required req r) (map m rows), None)"
proof (induction rows arbitrary: cnt)
  case Nil
  then show ?case by simp
next
  case (Cons raw rows)
  show ?case
  proof (cases "missing_required req (m raw)")
    case True
    with Cons.prems have le: "cnt + 1 + int (length (filter (missing_required req) (map m rows))) \<le> thr"
      by simp
    then have "\<not> cnt + 1 > thr" by linarith
    moreover have "valid_rows_loop m req thr (cnt + 1) rows
         = (filter (\<lambda>r. \<not> missing_required req r) (map m rows), None)"
      using le by (intro Cons.IH) simp
    ultimately show ?thesis using True by (simp add: Let_def)
  next
    case False
    with Cons.prems have "length (filter (missing_required req) (map m rows)) = 0
     \<or> cnt + int (length (filter (missing_required req) (map m rows))) \<le> thr"
      by simp
    from Cons.IH [OF this] False show ?thesis by (simp add: Let_def)
  qed
qed

lemma valid_rows_loop_abort:
  "0 < length (filter (missing_required req) (map m rows))
   \<Longrightarrow> cnt + int (length (filter (missing_required req) (map m rows))) > thr
   \<Longrightarrow> \<exists>pre bad post. map m rows = pre @ bad # post \<and> missing_required req bad
         \<and> (length (filter (missing_required req) pre) = 0
              \<or> cnt + int (length (filter (missing_required req) pre)) \<le> thr)
         \<and> cnt + int (length (filter (missing_required req) pre)) + 1 > thr
         \<and> valid_rows_loop m req thr cnt rows
             = (filter (\<lambda>r. \<not> missing_required req r) pre,
                Some (ValueError (''Too many invalid rows missing '' @ str_list req)))"
proof (induction rows arbitrary: cnt)
  case Nil
  then show ?case by simp
next
  case (Cons raw rows)
  let ?bad = "missing_required req"
  let ?msg = "Some (ValueError (''Too many invalid rows missing '' @ str_list req))"
  show ?case
  proof (cases "?bad (m raw)")
    case False
    with Cons.prems have p: "0 < length (filter ?bad (map m rows))"
      "cnt + int (length (filter ?bad (map m rows))) > thr" by simp_all
    from Cons.IH [OF p] obtain pre bad post where
      h: "map m rows = pre @ bad # post" "?bad bad"
         "length (filter ?bad pre) = 0 \<or> cnt + int (length (filter ?bad pre)) \<le> thr"
         "cnt + int (length (filter ?bad pre)) + 1 > thr"
         "valid_rows_loop m req thr cnt rows = (filter (\<lambda>r. \<not> ?bad r) pre, ?msg)"
      by blast
    have "map m (raw # rows) = (m raw # pre) @ bad # post" using h(1) by simp
    moreover have "valid_rows_loop m req thr cnt (raw # rows)
                   = (filter (\<lambda>r. \<not> ?bad r) (m raw # pre), ?msg)"
      using False h(5) by (simp add: Let_def)
    moreover have "length (filter ?bad (m raw # pre)) = length (filter ?bad pre)"
      using False by simp
    ultimately show ?thesis using h(2,3,4) by metis
  next
    case True
    show ?thesis
    proof (cases "cnt + 1 > thr")
      case over: True
      have "map m (raw # rows) = [] @ m raw # map m rows" by simp
      moreover have "valid_rows_loop m req thr cnt (raw # rows) = (filter (\<lambda>r. \<not> ?bad r) [], ?msg)"
        using True over by (simp add: Let_def)
      ultimately show ?thesis using True over
        by (metis (no_types, lifting) filter.simps(1) list.size(3) of_nat_0 add.right_neutral)
    next
      case under: False
      with Cons.prems True have p: "0 < length (filter ?bad (map m rows))"
        "(cnt + 1) + int (length (filter ?bad (map m rows))) > thr"
        by (auto simp: not_less) 
      from Cons.IH [OF p] obtain pre bad post where
        h: "map m rows = pre @ bad # post" "?bad bad"
         "length (filter ?bad pre) = 0 \<or> (cnt + 1) + int (length (filter ?bad pre)) \<le> thr"
         "(cnt + 1) + int (length (filter ?bad pre)) + 1 > thr"
         "valid_rows_loop m req thr (cnt + 1) rows = (filter (\<lambda>r. \<not> ?bad r) pre, ?msg)"
        by blast
      have a: "map m (raw # rows) = (m raw # pre) @ bad # post" using h(1) by simp
      have b: "valid_rows_loop m req thr cnt (raw # rows)
                   = (filter (\<lambda>r. \<not> ?bad r) (m raw # pre), ?msg)"
        using True under h(5) by (simp add: Let_def)
      have c: "int (length (filter ?bad (m raw # pre))) = 1 + int (length (filter ?bad pre))"
        using True by simp
      have d: "cnt + int (length (filter ?bad (m raw # pre))) \<le> thr"
        using c h(3) under by auto
      have e: "cnt + int (length (filter ?bad (m raw # pre))) + 1 > thr"
        using c h(4) by simp
      show ?thesis using a b d e h(2) by blast
    qed
  qed
qed


text \<open>
  C4, as stated, fails: when the validator aborts it has forwarded only the valid rows that
  came before the aborting row.  With threshold 0, an invalid row followed by a valid one
  gives no forwarded row at all, though one of the two rows is valid.
\<close>

theorem valid_rows_drops_rows_after_abort:
  "fst (valid_rows None [''id''] 0 ([[(''name'', PStr ''a'')], [(''id'', PInt 1)]], None)) = []
   \<and> snd (valid_rows None [''id''] 0 ([[(''name'', PStr ''a'')], [(''id'', PInt 1)]], None)) \<noteq> None
   \<and> filter (\<lambda>r. \<not> missing_required [''id''] r) [[(''name'', PStr ''a'')], [(''id'', PInt 1)]]
       = [[(''id'', PInt 1)]]"
  by (simp add: valid_rows_def missing_required_def dict_get_def)

text \<open>
  C4, amended.  Of \<open>M\<close> rows let \<open>N\<close> be invalid (after the mapper).  If \<open>N\<close> is within the
  threshold (or there is no invalid row), the validator forwards exactly the \<open>M - N\<close> valid
  rows, as mapped and in input order, and raises nothing.  Otherwise it raises at the first
  invalid row whose count passes the threshold, not before, and has forwarded exactly the
  valid rows in front of that row.
\<close>

theorem valid_rows_forwards_until_abort:
  "let mapped = map (case mapper of None \<Rightarrow> (\<lambda>x. x) | Some f \<Rightarrow> f) rows;
       bad = missing_required required_fields;
       n = length (filter bad mapped)
   in (n = 0 \<or> int n \<le> abort_threshold \<longrightarrow>
         valid_rows mapper required_fields abort_threshold (rows, None)
           = (filter (\<lambda>r. \<not> bad r) mapped, None))
      \<and> (0 < n \<and> abort_threshold < int n \<longrightarrow>
           (\<exists>pre b post. mapped = pre @ b # post \<and> bad b
              \<and> int (length (filter bad pre)) = max abort_threshold 0
              \<and> valid_rows mapper required_fields abort_threshold (rows, None)
                  = (filter (\<lambda>r. \<not> bad r) pre,
                     Some (ValueError
                       (''Too many invalid rows missing '' @ str_list required_fields)))))"
proof -
  define m where "m = (case mapper of None \<Rightarrow> (\<lambda>x. x) | Some f \<Rightarrow> f)"
  define bad where "bad = missing_required required_fields"
  define n where "n = length (filter bad (map m rows))"
  have vr: "valid_rows mapper required_fields abort_threshold (rows, None)
              = valid_rows_loop m required_fields abort_threshold 0 rows"
    by (cases "valid_rows_loop m required_fields abort_threshold 0 rows")
       (auto simp: valid_rows_def m_def split: option.splits)
  have ok: "valid_rows mapper required_fields abort_threshold (rows, None)
             = (filter (\<lambda>r. \<not> bad r) (map m rows), None)"
    if "n = 0 \<or> int n \<le> abort_threshold"
    using that valid_rows_loop_ok [of required_fields m rows 0 abort_threshold]
    unfolding vr n_def bad_def by simp
  have ab: "\<exists>pre b post. map m rows = pre @ b # post \<and> bad b
              \<and> int (length (filter bad pre)) = max abort_threshold 0
              \<and> valid_rows mapper required_fields abort_threshold (rows, None)
                  = (filter (\<lambda>r. \<not> bad r) pre,
                     Some (ValueError
                       (''Too many invalid rows missing '' @ str_list required_fields)))"
    if "0 < n \<and> abort_threshold < int n"
  proof -
    from that valid_rows_loop_abort [of required_fields m rows abort_threshold 0]
    obtain pre b post where
      h: "map m rows = pre @ b # post" "bad b"
         "length (filter bad pre) = 0 \<or> int (length (filter bad pre)) \<le> abort_threshold"
         "int (length (filter bad pre)) + 1 > abort_threshold"
         "valid_rows_loop m required_fields abort_threshold 0 rows
            = (filter (\<lambda>r. \<not> bad r) pre,
               Some (ValueError (''Too many invalid rows missing '' @ str_list required_fields)))"
      unfolding n_def bad_def by auto
    from h(3,4) have "int (length (filter bad pre)) = max abort_threshold 0" by auto
    with h(1,2,5) show ?thesis unfolding vr by blast
  qed
  show ?thesis
    unfolding Let_def m_def [symmetric] bad_def [symmetric] n_def [symmetric]
    using ok ab by blast
qed

theorem valid_rows_forwards_until_abort_witness:
  "valid_rows None [''id''] 1
     ([[(''name'', PStr ''a'')], [(''id'', PInt 1)], [(''id'', PInt 2)]], None)
     = ([[(''id'', PInt 1)], [(''id'', PInt 2)]], None)
   \<and> snd (valid_rows None [''id''] 0 ([[(''id'', PInt 1)], [(''name'', PStr ''a'')]], None))
       = Some (ValueError (''Too many invalid rows missing '' @ str_list [''id'']))"
proof -
  have a: "valid_rows None [''id''] 1
     ([[(''name'', PStr ''a'')], [(''id'', PInt 1)], [(''id'', PInt 2)]], None)
     = ([[(''id'', PInt 1)], [(''id'', PInt 2)]], None)"
    using valid_rows_forwards_until_abort
      [of None "[[(''name'', PStr ''a'')], [(''id'', PInt 1)], [(''id'', PInt 2)]]" "[''id'']" 1]
    by (simp add: Let_def missing_required_def dict_get_def)
  have b: "snd (valid_rows None [''id''] 0 ([[(''id'', PInt 1)], [(''name'', PStr ''a'')]], None))
       = Some (ValueError (''Too many invalid rows missing '' @ str_list [''id'']))"
    using valid_rows_forwards_until_abort
      [of None "[[(''id'', PInt 1)], [(''name'', PStr ''a'')]]" "[''id'']" 0]
    by (auto simp add: Let_def missing_required_def dict_get_def)
  from a b show ?thesis by simp
qed

subsection \<open>The deduplicator\<close>

lemma best_step_unfold:
  "best_step str_of c bm =
     (case map_of bm (prop_key str_of c) of
        None \<Rightarrow> AList.update (prop_key str_of c) c bm
      | Some ex \<Rightarrow> if priority_of c < priority_of ex
                   then AList.update (prop_key str_of c) c bm else bm)"
  by (simp add: best_step_def priority_of_def Let_def split: option.splits)

lemma find_snoc:
  "find P (xs @ [x]) = (case find P xs of None \<Rightarrow> (if P x then Some x else None) | Some y \<Rightarrow> Some y)"
  by (induction xs) auto

lemma best_inv_step:
  assumes inv: "best_inv (prop_key str_of) bm seen"
  shows "best_inv (prop_key str_of) (best_step str_of c bm) (seen @ [c])"
proof -
  let ?key = "prop_key str_of"
  from inv have d: "distinct (map fst bm)"
    and e: "\<And>k m. map_of bm k = Some m \<Longrightarrow>
             k = ?key m \<and> m \<in> set seen
             \<and> (\<forall>c \<in> set seen. ?key c = k \<longrightarrow> priority_of m \<le> priority_of c)
             \<and> find (\<lambda>c. ?key c = k \<and> priority_of c = priority_of m) seen = Some m"
    and s: "\<And>c. c \<in> set seen \<Longrightarrow> map_of bm (?key c) \<noteq> None"
    unfolding best_inv_def by blast+
  have keep: "best_inv ?key bm (seen @ [c])"
    if ex: "map_of bm (?key c) = Some ex" and le: "priority_of ex \<le> priority_of c" for ex
    unfolding best_inv_def
  proof (intro conjI allI impI ballI)
    show "distinct (map fst bm)" by (rule d)
  next
    fix k m assume km: "map_of bm k = Some m"
    note E = e [OF km]
    show "k = ?key m" using E by simp
    show "m \<in> set (seen @ [c])" using E by simp
    show "find (\<lambda>c. ?key c = k \<and> priority_of c = priority_of m) (seen @ [c]) = Some m"
    proof -
      from E have "find (\<lambda>c. ?key c = k \<and> priority_of c = priority_of m) seen = Some m"
        by blast
      then show ?thesis by (simp add: find_snoc)
    qed
    fix c' assume c': "c' \<in> set (seen @ [c])" "?key c' = k"
    show "priority_of m \<le> priority_of c'"
    proof (cases "c' = c")
      case True
      with c' km ex have "m = ex" by simp
      with le True show ?thesis by simp
    next
      case False
      with c' E show ?thesis by auto
    qed
  next
    fix c' assume "c' \<in> set (seen @ [c])"
    then show "map_of bm (?key c') \<noteq> None" using s ex by auto
  qed
  have put: "best_inv ?key (AList.update (?key c) c bm) (seen @ [c])"
    if lt: "\<And>c'. c' \<in> set seen \<Longrightarrow> ?key c' = ?key c \<Longrightarrow> priority_of c < priority_of c'"
  proof -
    have p1: "distinct (map fst (AList.update (?key c) c bm))" using d by (rule distinct_update)
    have p2: "k = ?key m \<and> m \<in> set (seen @ [c])
           \<and> (\<forall>c' \<in> set (seen @ [c]). ?key c' = k \<longrightarrow> priority_of m \<le> priority_of c')
           \<and> find (\<lambda>c. ?key c = k \<and> priority_of c = priority_of m) (seen @ [c]) = Some m"
      if km: "map_of (AList.update (?key c) c bm) k = Some m" for k m
    proof (cases "k = ?key c")
      case True
      with km have m: "m = c" by (simp add: update_conv')
      have "find (\<lambda>c'. ?key c' = ?key c \<and> priority_of c' = priority_of c) seen = None"
        using lt by (fastforce simp: find_None_iff)
      then show ?thesis using True m lt by (auto simp: find_snoc less_imp_le)
    next
      case False
      with km have "map_of bm k = Some m" by (simp add: update_conv')
      from e [OF this] False show ?thesis by (auto simp: find_snoc)
    qed
    have p3: "map_of (AList.update (?key c) c bm) (?key c') \<noteq> None"
      if "c' \<in> set (seen @ [c])" for c'
      using that s by (auto simp: update_conv')
    show ?thesis unfolding best_inv_def using p1 p2 p3 by blast
  qed
  show ?thesis
  proof (cases "map_of bm (?key c)")
    case None
    have "best_inv ?key (AList.update (?key c) c bm) (seen @ [c])"
    proof (rule put)
      fix c' assume "c' \<in> set seen" "?key c' = ?key c"
      with s [of c'] None show "priority_of c < priority_of c'" by simp
    qed
    with None show ?thesis by (simp add: best_step_unfold)
  next
    case (Some ex)
    show ?thesis
    proof (cases "priority_of c < priority_of ex")
      case True
      have "best_inv ?key (AList.update (?key c) c bm) (seen @ [c])"
      proof (rule put)
        fix c' assume "c' \<in> set seen" "?key c' = ?key c"
        with e [OF Some] have "priority_of ex \<le> priority_of c'" by auto
        with True show "priority_of c < priority_of c'" by simp
      qed
      with Some True show ?thesis by (simp add: best_step_unfold)
    next
      case False
      then have "best_inv ?key bm (seen @ [c])" using Some by (intro keep) auto
      with Some False show ?thesis by (simp add: best_step_unfold)
    qed
  qed
qed

lemma best_inv_fold:
  "best_inv (prop_key str_of) bm seen
   \<Longrightarrow> best_inv (prop_key str_of) (fold (best_step str_of) cs bm) (seen @ cs)"
proof (induction cs arbitrary: bm seen)
  case Nil
  then show ?case by simp
next
  case (Cons c cs)
  from Cons.IH [OF best_inv_step [OF Cons.prems, of c]] show ?case by simp
qed

lemma best_inv_empty: "best_inv key [] []"
  by (simp add: best_inv_def)


lemma best_loop_Cons:
  "best_loop str_of now (row # rest) bm =
     ebind (candidate now row) (\<lambda>m.
       best_loop str_of now rest (case m of None \<Rightarrow> bm | Some mapped \<Rightarrow> best_step str_of mapped bm))"
  by (cases "is_valid_prop row"; cases "map_player_prop_extras now row")
     (auto simp: candidate_def ebind_def split: option.splits)

lemma candidates_Cons:
  "candidates now (row # rest) =
     (case candidate now row of Inr (Some m) \<Rightarrow> [m] | _ \<Rightarrow> []) @ candidates now rest"
  by (simp add: candidates_def)

lemma best_loop_fold:
  "list_all (\<lambda>row. \<not> isl (candidate now row)) rows
   \<Longrightarrow> best_loop str_of now rows bm = Inr (fold (best_step str_of) (candidates now rows) bm)"
proof (induction rows arbitrary: bm)
  case Nil
  then show ?case by (simp add: candidates_def)
next
  case (Cons row rest)
  then obtain m where m: "candidate now row = Inr m"
    by (cases "candidate now row") auto
  from Cons have "best_loop str_of now rest bm' = Inr (fold (best_step str_of) (candidates now rest) bm')"
    for bm' by simp
  then show ?case
    by (cases m) (simp_all add: best_loop_Cons candidates_Cons m ebind_def del: best_loop.simps)
qed

lemma candidate_ranked:
  assumes "candidate now row = Inr (Some m)"
  shows "map_of VENDOR_PRIORITY (mapped_vendor m) \<noteq> None"
proof -
  from assms have v: "is_valid_prop row = Inr True"
    and mp: "map_player_prop_extras now row = Inr (Some m)"
    by (auto simp: candidate_def ebind_Inr_iff split: if_splits)
  from v obtain vendor where rv: "row_vendor row = Inr vendor"
    and ranked: "map_of VENDOR_PRIORITY vendor \<noteq> None"
    by (auto simp: is_valid_prop_def ebind_Inr_iff split: if_splits)
  from mp rv have "dict_get m ''vendor'' = PStr vendor"
    by (auto simp: map_player_prop_extras_def Let_def ebind_Inr_iff dict_get_def
             split: if_splits)
  then show ?thesis using ranked by (simp add: mapped_vendor_def)
qed

lemma candidates_ranked:
  "m \<in> set (candidates now rows) \<Longrightarrow> map_of VENDOR_PRIORITY (mapped_vendor m) \<noteq> None"
proof -
  assume "m \<in> set (candidates now rows)"
  then obtain row where "candidate now row = Inr (Some m)"
    by (auto simp: candidates_def split: sum.splits option.splits)
  then show ?thesis by (rule candidate_ranked)
qed

text \<open>
  C2, as stated, fails: the vendor ranking is applied only to the rows that pass the market
  filter.  For one (player, prop type) pair with a DraftKings milestone row and a FanDuel
  over/under row, the row kept is FanDuel's, though DraftKings has the lowest priority value
  of the pair's candidates.
\<close>

theorem get_best_props_keeps_lower_ranked_vendor:
  "get_best_props py_str ''2026-01-01T00:00:00+00:00''
     [[(''id'', PInt 1), (''game_id'', PInt 9), (''player_id'', PInt 55),
       (''prop_type'', PStr ''passing_yards''), (''vendor'', PStr ''draftkings''),
       (''market'', PDict [(''type'', PStr ''milestone'')])],
      [(''id'', PInt 2), (''game_id'', PInt 9), (''player_id'', PInt 55),
       (''prop_type'', PStr ''passing_yards''), (''vendor'', PStr ''fanduel''),
       (''market'', PDict [(''type'', PStr ''over_under'')])]]
   = Inr [[(''id'', PInt 2), (''game_id'', PInt 9), (''player_id'', PInt 55),
           (''vendor'', PStr ''fanduel''), (''prop_type'', PStr ''player_pass_yds''),
           (''market_type'', PStr ''over_under''), (''line_value'', PNone),
           (''over_odds'', PNone), (''under_odds'', PNone),
           (''updated_at'', PStr ''2026-01-01T00:00:00+00:00'')]]"
  by code_simp

text \<open>
  C2, amended.  Take the candidates of a finite collection of prop records: the mapped rows
  of the records that pass \<open>is_valid_prop\<close> (ranked vendor, over/under market) and
  \<open>map_player_prop\<close> (prop type in \<open>PROP_MAP\<close>, a player id that is not empty), and group
  them by the key \<open>f"{player_id}|{prop_type}"\<close>.  If no record makes the two functions
  raise, \<open>_get_best_props\<close> returns, and it retains exactly one row per key of the
  candidates: a candidate whose vendor is ranked and has the lowest priority value of the
  candidates with that key, the first-encountered among those with that value.  Every other
  record is excluded.
\<close>

theorem get_best_props_one_best_row_per_key:
  assumes "list_all (\<lambda>row. \<not> isl (candidate now row)) props_list"
  shows "\<exists>out. get_best_props str_of now props_list = Inr out
     \<and> distinct (map (prop_key str_of) out)
     \<and> (\<forall>c \<in> set (candidates now props_list).
           \<exists>m \<in> set out. prop_key str_of m = prop_key str_of c)
     \<and> (\<forall>m \<in> set out.
           m \<in> set (candidates now props_list)
           \<and> map_of VENDOR_PRIORITY (mapped_vendor m) \<noteq> None
           \<and> (\<forall>c \<in> set (candidates now props_list).
                 prop_key str_of c = prop_key str_of m \<longrightarrow> priority_of m \<le> priority_of c)
           \<and> find (\<lambda>c. prop_key str_of c = prop_key str_of m \<and> priority_of c = priority_of m)
                (candidates now props_list) = Some m)"
proof -
  let ?key = "prop_key str_of"
  let ?cs = "candidates now props_list"
  define bm where "bm = fold (best_step str_of) ?cs []"
  have res: "get_best_props str_of now props_list = Inr (map snd bm)"
    using best_loop_fold [OF assms, of str_of "[]"]
    by (simp add: get_best_props_def ebind_def bm_def)
  have "best_inv ?key bm ([] @ ?cs)"
    unfolding bm_def by (rule best_inv_fold) (rule best_inv_empty)
  then have inv: "best_inv ?key bm ?cs" by simp
  from inv have d: "distinct (map fst bm)"
    and e: "\<And>k m. map_of bm k = Some m \<Longrightarrow>
             k = ?key m \<and> m \<in> set ?cs
             \<and> (\<forall>c \<in> set ?cs. ?key c = k \<longrightarrow> priority_of m \<le> priority_of c)
             \<and> find (\<lambda>c. ?key c = k \<and> priority_of c = priority_of m) ?cs = Some m"
    and s: "\<And>c. c \<in> set ?cs \<Longrightarrow> map_of bm (?key c) \<noteq> None"
    unfolding best_inv_def by blast+
  have entry: "map_of bm k = Some m" if "(k, m) \<in> set bm" for k m
    using that d by simp
  have keys: "map ?key (map snd bm) = map fst bm"
  proof (rule nth_equalityI)
    show "length (map ?key (map snd bm)) = length (map fst bm)" by simp
  next
    fix i assume "i < length (map ?key (map snd bm))"
    then have i: "i < length bm" by simp
    then have "(fst (bm ! i), snd (bm ! i)) \<in> set bm" by simp
    from e [OF entry [OF this]] i show "map ?key (map snd bm) ! i = map fst bm ! i" by simp
  qed
  have a1: "distinct (map ?key (map snd bm))" unfolding keys by (rule d)
  have a2: "\<exists>m \<in> set (map snd bm). ?key m = ?key c" if "c \<in> set ?cs" for c
  proof -
    from s [OF that] obtain m where m: "map_of bm (?key c) = Some m" by auto
    then have "(?key c, m) \<in> set bm" by (rule map_of_SomeD)
    then have "m \<in> set (map snd bm)" by force
    moreover from e [OF m] have "?key m = ?key c" by simp
    ultimately show ?thesis by blast
  qed
  have a3: "m \<in> set ?cs
           \<and> map_of VENDOR_PRIORITY (mapped_vendor m) \<noteq> None
           \<and> (\<forall>c \<in> set ?cs. ?key c = ?key m \<longrightarrow> priority_of m \<le> priority_of c)
           \<and> find (\<lambda>c. ?key c = ?key m \<and> priority_of c = priority_of m) ?cs = Some m"
    if "m \<in> set (map snd bm)" for m
  proof -
    from that obtain k where "(k, m) \<in> set bm" by auto
    from e [OF entry [OF this]] have E: "k = ?key m \<and> m \<in> set ?cs
      \<and> (\<forall>c \<in> set ?cs. ?key c = k \<longrightarrow> priority_of m \<le> priority_of c)
      \<and> find (\<lambda>c. ?key c = k \<and> priority_of c = priority_of m) ?cs = Some m" .
    then have k: "k = ?key m" by (rule conjunct1)
    from E have r1: "m \<in> set ?cs" by blast
    from E have r2: "\<forall>c \<in> set ?cs. ?key c = ?key m \<longrightarrow> priority_of m \<le> priority_of c"
      unfolding k [symmetric] by blast
    from E have r3: "find (\<lambda>c. ?key c = ?key m \<and> priority_of c = priority_of m) ?cs = Some m"
      unfolding k [symmetric] by blast
    from r1 have r4: "map_of VENDOR_PRIORITY (mapped_vendor m) \<noteq> None"
      by (rule candidates_ranked)
    from r1 r4 r2 r3 show ?thesis by (intro conjI)
  qed
  show ?thesis
  proof (rule exI [of _ "map snd bm"], intro conjI)
    show "get_best_props str_of now props_list = Inr (map snd bm)" by (rule res)
    show "distinct (map ?key (map snd bm))" by (rule a1)
    show "\<forall>c \<in> set ?cs. \<exists>m \<in> set (map snd bm). ?key m = ?key c"
      using a2 by (intro ballI)
    show "\<forall>m \<in> set (map snd bm).
           m \<in> set ?cs
           \<and> map_of VENDOR_PRIORITY (mapped_vendor m) \<noteq> None
           \<and> (\<forall>c \<in> set ?cs. ?key c = ?key m \<longrightarrow> priority_of m \<le> priority_of c)
           \<and> find (\<lambda>c. ?key c = ?key m \<and> priority_of c = priority_of m) ?cs = Some m"
      using a3 by (intro ballI)
  qed
qed


theorem get_best_props_one_best_row_per_key_witness:
  "get_best_props py_str ''t''
     [[(''id'', PInt 1), (''player_id'', PInt 55), (''prop_type'', PStr ''passing_yards''),
       (''vendor'', PStr ''fanduel''), (''market'', PDict [(''type'', PStr ''over_under'')])],
      [(''id'', PInt 2), (''player_id'', PInt 55), (''prop_type'', PStr ''passing_yards''),
       (''vendor'', PStr ''draftkings''), (''market'', PDict [(''type'', PStr ''over_under'')])],
      [(''id'', PInt 3), (''player_id'', PInt 55), (''prop_type'', PStr ''passing_yards''),
       (''vendor'', PStr ''unranked_x''), (''market'', PDict [(''type'', PStr ''over_under'')])]]
   = Inr [[(''id'', PInt 2), (''game_id'', PNone), (''player_id'', PInt 55),
           (''vendor'', PStr ''draftkings''), (''prop_type'', PStr ''player_pass_yds''),
           (''market_type'', PStr ''over_under''), (''line_value'', PNone),
           (''over_odds'', PNone), (''under_odds'', PNone), (''updated_at'', PStr ''t'')]]
   \<and> map_of VENDOR_PRIORITY (mapped_vendor
         [(''id'', PInt 2), (''game_id'', PNone), (''player_id'', PInt 55),
           (''vendor'', PStr ''draftkings''), (''prop_type'', PStr ''player_pass_yds''),
           (''market_type'', PStr ''over_under''), (''line_value'', PNone),
           (''over_odds'', PNone), (''under_odds'', PNone), (''updated_at'', PStr ''t'')])
       \<noteq> None"
proof -
  let ?rows = "[[(''id'', PInt 1), (''player_id'', PInt 55), (''prop_type'', PStr ''passing_yards''),
       (''vendor'', PStr ''fanduel''), (''market'', PDict [(''type'', PStr ''over_under'')])],
      [(''id'', PInt 2), (''player_id'', PInt 55), (''prop_type'', PStr ''passing_yards''),
       (''vendor'', PStr ''draftkings''), (''market'', PDict [(''type'', PStr ''over_under'')])],
      [(''id'', PInt 3), (''player_id'', PInt 55), (''prop_type'', PStr ''passing_yards''),
       (''vendor'', PStr ''unranked_x''), (''market'', PDict [(''type'', PStr ''over_under'')])]]"
  let ?best = "[(''id'', PInt 2), (''game_id'', PNone), (''player_id'', PInt 55),
           (''vendor'', PStr ''draftkings''), (''prop_type'', PStr ''player_pass_yds''),
           (''market_type'', PStr ''over_under''), (''line_value'', PNone),
           (''over_odds'', PNone), (''under_odds'', PNone), (''updated_at'', PStr ''t'')]"
  have h: "list_all (\<lambda>row. \<not> isl (candidate ''t'' row)) ?rows" by code_simp
  have r: "get_best_props py_str ''t'' ?rows = Inr [?best]" by code_simp
  from get_best_props_one_best_row_per_key [OF h, of py_str]
  obtain out where o: "get_best_props py_str ''t'' ?rows = Inr out"
    and rk: "\<forall>m \<in> set out. map_of VENDOR_PRIORITY (mapped_vendor m) \<noteq> None"
    by blast
  from o r have "out = [?best]" by simp
  with rk have rb: "map_of VENDOR_PRIORITY (mapped_vendor ?best) \<noteq> None" by simp
  show ?thesis by (rule conjI [OF r rb])
qed

subsection \<open>The rate limiter\<close>

lemma wait_first:
  "last_ts rl \<le> 0 \<Longrightarrow> wait (rl, w) = (Inr (), (rl\<lparr>last_ts := clock w\<rparr>, w))"
  by (simp add: wait_def)

lemma wait_later:
  assumes pos: "0 < last_ts rl"
    and sl: "\<forall>d w. 0 < d \<longrightarrow> (\<exists>w'. rl_sleep rl d w = (Inr (), w') \<and> clock w + d \<le> clock w')"
  shows "\<exists>w'. wait (rl, w) = (Inr (), (rl\<lparr>last_ts := clock w'\<rparr>, w'))
           \<and> clock w \<le> clock w' \<and> last_ts rl + min_interval_seconds rl \<le> clock w'"
proof (cases "0 < min_interval_seconds rl - (clock w - last_ts rl)")
  case True
  with sl obtain w' where
    w': "rl_sleep rl (min_interval_seconds rl - (clock w - last_ts rl)) w = (Inr (), w')"
    and c: "clock w + (min_interval_seconds rl - (clock w - last_ts rl)) \<le> clock w'"
    by blast
  have "wait (rl, w) = (Inr (), (rl\<lparr>last_ts := clock w'\<rparr>, w'))"
    using pos True w' by (simp add: wait_def Let_def)
  moreover have "clock w \<le> clock w'" using c True by linarith
  moreover have "last_ts rl + min_interval_seconds rl \<le> clock w'" using c by linarith
  ultimately show ?thesis by blast
next
  case False
  have "wait (rl, w) = (Inr (), (rl\<lparr>last_ts := clock w\<rparr>, w))"
    using pos False by (simp add: wait_def Let_def)
  moreover have "last_ts rl + min_interval_seconds rl \<le> clock w" using False by linarith
  ultimately show ?thesis by auto
qed

lemma waits_from:
  assumes sl: "\<forall>d w. 0 < d \<longrightarrow> (\<exists>w'. rl_sleep rl d w = (Inr (), w') \<and> clock w + d \<le> clock w')"
    and gaps: "list_all (\<lambda>g. 0 \<le> g) gaps"
    and now: "0 < clock w"
  shows "\<exists>marks s'. waits gaps (rl, w) = (Inr marks, s')
           \<and> length marks = length gaps
           \<and> list_all (\<lambda>n. fst n = snd n) marks
           \<and> successively (\<lambda>a b. min_interval_seconds rl \<le> fst b - fst a) marks
           \<and> (\<forall>n \<in> set (take 1 marks).
                 0 < fst n \<and> (0 < last_ts rl \<longrightarrow> last_ts rl + min_interval_seconds rl \<le> fst n))"
  using gaps now sl
proof (induction gaps arbitrary: rl w)
  case Nil
  then show ?case by simp
next
  case (Cons g gaps)
  let ?w = "w\<lparr>clock := clock w + g\<rparr>"
  let ?t = "min_interval_seconds rl"
  from Cons.prems have g: "0 \<le> g" and gs: "list_all (\<lambda>g. 0 \<le> g) gaps" by simp_all
  have cw: "0 < clock ?w" using g Cons.prems(2) by simp
  obtain w1 where
    wt: "wait (rl, ?w) = (Inr (), (rl\<lparr>last_ts := clock w1\<rparr>, w1))"
    and c1: "clock ?w \<le> clock w1"
    and far: "0 < last_ts rl \<longrightarrow> last_ts rl + ?t \<le> clock w1"
  proof (cases "0 < last_ts rl")
    case True
    from wait_later [OF True Cons.prems(3), of ?w] that True show ?thesis by blast
  next
    case False
    then have "wait (rl, ?w) = (Inr (), (rl\<lparr>last_ts := clock ?w\<rparr>, ?w))"
      by (intro wait_first) simp
    with that False show ?thesis by simp
  qed
  let ?rl1 = "rl\<lparr>last_ts := clock w1\<rparr>"
  have p1: "0 < clock w1" using cw c1 by linarith
  have sl1: "\<forall>d w. 0 < d \<longrightarrow> (\<exists>w'. rl_sleep ?rl1 d w = (Inr (), w') \<and> clock w + d \<le> clock w')"
    using Cons.prems(3) by simp
  from Cons.IH [OF gs p1 sl1] obtain marks s' where
    r: "waits gaps (?rl1, w1) = (Inr marks, s')"
    and len: "length marks = length gaps"
    and rec: "list_all (\<lambda>n. fst n = snd n) marks"
    and sp: "successively (\<lambda>a b. min_interval_seconds ?rl1 \<le> fst b - fst a) marks"
    and hd: "\<forall>n \<in> set (take 1 marks).
                 0 < fst n \<and> (0 < last_ts ?rl1 \<longrightarrow> last_ts ?rl1 + min_interval_seconds ?rl1 \<le> fst n)"
    by blast
  let ?marks = "(clock w1, clock w1) # marks"
  have res: "waits (g # gaps) (rl, w) = (Inr ?marks, s')"
    using wt r by simp
  have sp': "successively (\<lambda>a b. ?t \<le> fst b - fst a) ?marks"
  proof (cases marks)
    case Nil
    then show ?thesis by simp
  next
    case (Cons n rest)
    with hd p1 have "clock w1 + ?t \<le> fst n" by simp
    with sp Cons show ?thesis by simp
  qed
  have hd': "\<forall>n \<in> set (take 1 ?marks).
               0 < fst n \<and> (0 < last_ts rl \<longrightarrow> last_ts rl + ?t \<le> fst n)"
    using p1 far by simp
  from res len rec sp' hd' show ?case by simp
qed


text \<open>
  C6.  Time is exact here: the clock and the durations are real numbers, the statements of
  \<open>wait\<close> other than the sleep take no time, between two calls the caller lets any time
  \<open>\<ge> 0\<close> pass, and the limiter's \<open>_sleep\<close> returns only after at least the requested time
  (as \<open>time.sleep\<close> does).  The clock reads a positive time (now is after the epoch), and
  the limiter is new (\<open>_last_ts\<close> is 0).  Then \<open>K\<close> consecutive calls of \<open>wait()\<close> all
  return; after each the limiter holds the time of that moment; the times held after two
  consecutive calls are at least \<open>min_interval_seconds\<close> apart; and the first call returns
  without sleeping, the world being as it was.
\<close>

theorem wait_spaces_consecutive_calls:
  assumes "last_ts rl \<le> 0"
    and "\<forall>d w. 0 < d \<longrightarrow> (\<exists>w'. rl_sleep rl d w = (Inr (), w') \<and> clock w + d \<le> clock w')"
    and "list_all (\<lambda>g. 0 \<le> g) gaps"
    and "0 < clock w"
  shows "\<exists>marks s'. waits gaps (rl, w) = (Inr marks, s')
           \<and> length marks = length gaps
           \<and> list_all (\<lambda>n. fst n = snd n) marks
           \<and> successively (\<lambda>a b. min_interval_seconds rl \<le> fst b - fst a) marks
           \<and> wait (rl, w) = (Inr (), (rl\<lparr>last_ts := clock w\<rparr>, w))"
proof -
  from waits_from [OF assms(2,3,4)] obtain marks s' where
    "waits gaps (rl, w) = (Inr marks, s')" "length marks = length gaps"
    "list_all (\<lambda>n. fst n = snd n) marks"
    "successively (\<lambda>a b. min_interval_seconds rl \<le> fst b - fst a) marks"
    by blast
  with wait_first [OF assms(1), of w] show ?thesis by blast
qed

theorem wait_spaces_consecutive_calls_witness:
  "fst (waits [0, 1 / 20, 1]
         (\<lparr>min_interval_seconds = 11 / 100, rl_sleep = sleep_default, last_ts = 0\<rparr>,
          \<lparr>clock = 1000, slept = [], sent = []\<rparr>))
     = Inr [(1000, 1000), (1000 + 11 / 100, 1000 + 11 / 100), (1001 + 11 / 100, 1001 + 11 / 100)]
   \<and> successively (\<lambda>a b. 11 / 100 \<le> fst b - fst a)
        [(1000 :: real, 1000 :: real), (1000 + 11 / 100, 1000 + 11 / 100),
         (1001 + 11 / 100, 1001 + 11 / 100)]"
proof -
  let ?rl = "\<lparr>min_interval_seconds = 11 / 100, rl_sleep = sleep_default, last_ts = 0\<rparr>"
  let ?w = "\<lparr>clock = 1000, slept = [], sent = []\<rparr>"
  let ?marks = "[(1000 :: real, 1000 :: real), (1000 + 11 / 100, 1000 + 11 / 100),
         (1001 + 11 / 100, 1001 + 11 / 100)]"
  have h1: "last_ts ?rl \<le> 0" by simp
  have h2: "\<forall>d w. 0 < d \<longrightarrow> (\<exists>w'. rl_sleep ?rl d w = (Inr (), w') \<and> clock w + d \<le> clock w')"
    by (simp add: sleep_default_def)
  have h3: "list_all (\<lambda>g. 0 \<le> g) [0, 1 / 20, 1 :: real]" by simp
  have h4: "0 < clock ?w" by simp
  have v: "fst (waits [0, 1 / 20, 1] (?rl, ?w)) = Inr ?marks"
    by (simp add: wait_def sleep_default_def Let_def)
  from wait_spaces_consecutive_calls [OF h1 h2 h3 h4] obtain marks s' where
    m: "waits [0, 1 / 20, 1] (?rl, ?w) = (Inr marks, s')"
    and sp: "successively (\<lambda>a b. min_interval_seconds ?rl \<le> fst b - fst a) marks"
    by blast
  from m v have "marks = ?marks" by simp
  with sp have "successively (\<lambda>a b. 11 / 100 \<le> fst b - fst a) ?marks" by simp
  with v show ?thesis by blast
qed

subsection \<open>One request\<close>

lemma request_unfold:
  "request c method path params =
     request_loop c (request_of c method path params) (map int [0 ..< nat (max_retries c + 1)])"
  by (rule ext) (simp add: request_def request_of_def)

lemma wait_ready:
  "limiter_ready rl w \<Longrightarrow> wait (rl, w) = (Inr (), (rl\<lparr>last_ts := clock w\<rparr>, w))"
  by (auto simp: wait_def limiter_ready_def Let_def)

lemma wait_default:
  assumes "rl_sleep rl = sleep_default"
  shows "\<exists>pre. length pre \<le> 1
           \<and> limiter_ready rl (w\<lparr>clock := clock w + sum_list pre, slept := slept w @ pre\<rparr>)
           \<and> wait (rl, w)
               = wait (rl, w\<lparr>clock := clock w + sum_list pre, slept := slept w @ pre\<rparr>)"
proof (cases "limiter_ready rl w")
  case True
  then have "limiter_ready rl (w\<lparr>clock := clock w + sum_list [], slept := slept w @ []\<rparr>)
       \<and> wait (rl, w) = wait (rl, w\<lparr>clock := clock w + sum_list [], slept := slept w @ []\<rparr>)"
    by simp
  then show ?thesis by (intro exI [of _ "[]"]) simp
next
  case False
  define r where "r = min_interval_seconds rl - (clock w - last_ts rl)"
  from False have pos: "0 < last_ts rl" and r: "0 < r"
    by (auto simp: limiter_ready_def r_def)
  let ?w = "w\<lparr>clock := clock w + sum_list [r], slept := slept w @ [r]\<rparr>"
  have rdy: "limiter_ready rl ?w" by (simp add: limiter_ready_def r_def)
  have "wait (rl, w) = (Inr (), (rl\<lparr>last_ts := clock ?w\<rparr>, ?w))"
  proof -
    have lt: "clock w - last_ts rl < min_interval_seconds rl" using r by (simp add: r_def)
    have eq: "min_interval_seconds rl - (clock w - last_ts rl) = r" by (simp add: r_def)
    have nn: "\<not> r < 0" using r by simp
    show ?thesis using pos lt nn assms
      by (simp add: wait_def Let_def eq sleep_default_def)
  qed
  also have "\<dots> = wait (rl, ?w)" using wait_ready [OF rdy] by simp
  finally show ?thesis using rdy by (intro exI [of _ "[r]"]) simp
qed

lemma request_loop_wait_cong:
  "wait s = wait s' \<Longrightarrow> request_loop c req (a # as) s = request_loop c req (a # as) s'"
  by simp

lemma upt_attempts: "i < n \<Longrightarrow> map int [i ..< n] = int i # map int [Suc i ..< n]"
  by (simp add: upt_conv_Cons)

lemma wait_sleeps:
  assumes "rl_sleep rl = sleep_default"
  shows "\<exists>p. length p \<le> 1
           \<and> wait (rl, w)
               = (Inr (), (rl\<lparr>last_ts := clock w + sum_list p\<rparr>,
                           w\<lparr>clock := clock w + sum_list p, slept := slept w @ p\<rparr>))"
proof -
  from wait_default [OF assms, of w] obtain p where
    p: "length p \<le> 1"
    and rdy: "limiter_ready rl (w\<lparr>clock := clock w + sum_list p, slept := slept w @ p\<rparr>)"
    and wt: "wait (rl, w) = wait (rl, w\<lparr>clock := clock w + sum_list p, slept := slept w @ p\<rparr>)"
    by blast
  have "wait (rl, w) = (Inr (), (rl\<lparr>last_ts := clock w + sum_list p\<rparr>,
                           w\<lparr>clock := clock w + sum_list p, slept := slept w @ p\<rparr>))"
    unfolding wt using wait_ready [OF rdy] by simp
  with p show ?thesis by blast
qed

lemma request_loop_retry_step:
  assumes sl: "sleep c = sleep_default"
    and rs: "rl_sleep rl = sleep_default"
    and a: "int a < max_retries c"
    and s: "\<forall>w'. length (sent w') = length (sent w) \<longrightarrow> session c req w' = out"
    and r: "retried out d"
  shows "\<exists>rl' w' p. request_loop c req (int a # rest) (rl, w) = request_loop c req rest (rl', w')
           \<and> rl_sleep rl' = sleep_default \<and> length p \<le> 1
           \<and> sent w' = sent w @ [req] \<and> slept w' = slept w @ p @ [d]"
proof -
  from wait_sleeps [OF rs, of w] obtain p where
    p: "length p \<le> 1"
    and wt: "wait (rl, w)
               = (Inr (), (rl\<lparr>last_ts := clock w + sum_list p\<rparr>,
                           w\<lparr>clock := clock w + sum_list p, slept := slept w @ p\<rparr>))"
    by blast
  let ?rl = "rl\<lparr>last_ts := clock w + sum_list p\<rparr>"
  let ?w0 = "w\<lparr>clock := clock w + sum_list p, slept := slept w @ p\<rparr>"
  let ?w1 = "?w0\<lparr>sent := sent ?w0 @ [req]\<rparr>"
  let ?w2 = "?w1\<lparr>clock := clock ?w1 + d, slept := slept ?w1 @ [d]\<rparr>"
  have so: "session c req ?w0 = out" using s by simp
  have d0: "\<not> d < 0" using r by (simp add: retried_def)
  have na: "\<not> max_retries c \<le> int a" using a by simp
  have "request_loop c req (int a # rest) (rl, w) = request_loop c req rest (?rl, ?w2)"
  proof (cases out)
    case (Raised e)
    then have dd: "d = 1 / 2" using r by (simp add: retried_def)
    show ?thesis unfolding dd using wt so Raised na sl
      by (simp add: Let_def sleep_default_def)
  next
    case (Resp resp)
    then have "status_code resp = 429"
      and "(case retry_after resp of None \<Rightarrow> Inr (1 / 2) | Some f \<Rightarrow> f) = Inr d"
      using r by (simp_all add: retried_def)
    then show ?thesis using wt so Resp sl d0
      by (simp add: Let_def sleep_default_def)
  qed
  moreover have "rl_sleep ?rl = sleep_default" using rs by simp
  moreover have "sent ?w2 = sent w @ [req]" by simp
  moreover have "slept ?w2 = slept w @ p @ [d]" by simp
  ultimately show ?thesis using p by blast
qed

lemma request_loop_retried:
  assumes sl: "sleep c = sleep_default"
  shows "rl_sleep rl = sleep_default \<Longrightarrow> int (i + length steps) \<le> max_retries c
     \<Longrightarrow> i + length steps \<le> n
     \<Longrightarrow> (\<forall>j < length steps. \<forall>w'. length (sent w') = length (sent w) + j
                \<longrightarrow> session c req w' = fst (steps ! j))
     \<Longrightarrow> (\<forall>st \<in> set steps. retried (fst st) (snd st))
     \<Longrightarrow> \<exists>rl' w' pauses.
           request_loop c req (map int [i ..< n]) (rl, w)
             = request_loop c req (map int [i + length steps ..< n]) (rl', w')
           \<and> rl_sleep rl' = sleep_default
           \<and> sent w' = sent w @ replicate (length steps) req
           \<and> length pauses = length steps \<and> (\<forall>q \<in> set pauses. length q \<le> 1)
           \<and> slept w' = slept w @ concat (map2 (\<lambda>q st. q @ [snd st]) pauses steps)"
proof (induction steps arbitrary: i rl w)
  case Nil
  have "request_loop c req (map int [i ..< n]) (rl, w)
          = request_loop c req (map int [i + length ([] :: (outcome \<times> real) list) ..< n]) (rl, w)
        \<and> rl_sleep rl = sleep_default
        \<and> sent w = sent w @ replicate (length ([] :: (outcome \<times> real) list)) req
        \<and> length ([] :: real list list) = length ([] :: (outcome \<times> real) list)
        \<and> (\<forall>q \<in> set ([] :: real list list). length q \<le> 1)
        \<and> slept w = slept w @ concat (map2 (\<lambda>q st. q @ [snd st]) [] ([] :: (outcome \<times> real) list))"
    using Nil.prems(1) by simp
  then show ?case by blast
next
  case (Cons st steps)
  obtain out d where st: "st = (out, d)" by (cases st)
  have lt: "i < n" using Cons.prems(3) by simp
  have a: "int i < max_retries c" using Cons.prems(2) by simp
  have s0: "\<forall>w'. length (sent w') = length (sent w) \<longrightarrow> session c req w' = out"
    using Cons.prems(4) st by fastforce
  have r0: "retried out d" using Cons.prems(5) st by simp
  from request_loop_retry_step [OF sl Cons.prems(1) a s0 r0, of "map int [Suc i ..< n]"]
  obtain rl1 w1 p where
    step: "request_loop c req (int i # map int [Suc i ..< n]) (rl, w)
             = request_loop c req (map int [Suc i ..< n]) (rl1, w1)"
    and rs1: "rl_sleep rl1 = sleep_default" and p: "length p \<le> 1"
    and sent1: "sent w1 = sent w @ [req]" and slept1: "slept w1 = slept w @ p @ [d]"
    by blast
  have b: "int (Suc i + length steps) \<le> max_retries c" using Cons.prems(2) by simp
  have b2: "Suc i + length steps \<le> n" using Cons.prems(3) by simp
  have h: "\<forall>j < length steps. \<forall>w'. length (sent w') = length (sent w1) + j
                \<longrightarrow> session c req w' = fst (steps ! j)"
  proof (intro allI impI)
    fix j and w' :: world assume j: "j < length steps" and l: "length (sent w') = length (sent w1) + j"
    have "Suc j < length (st # steps)" using j by simp
    moreover have "length (sent w') = length (sent w) + Suc j" using l sent1 by simp
    ultimately have "session c req w' = fst ((st # steps) ! Suc j)" using Cons.prems(4) by blast
    then show "session c req w' = fst (steps ! j)" by simp
  qed
  have r: "\<forall>st \<in> set steps. retried (fst st) (snd st)" using Cons.prems(5) by simp
  from Cons.IH [OF rs1 b b2 h r] obtain rl' w' pauses where
    run: "request_loop c req (map int [Suc i ..< n]) (rl1, w1)
             = request_loop c req (map int [Suc i + length steps ..< n]) (rl', w')"
    and rs': "rl_sleep rl' = sleep_default"
    and sent': "sent w' = sent w1 @ replicate (length steps) req"
    and len: "length pauses = length steps" and le: "\<forall>q \<in> set pauses. length q \<le> 1"
    and slept': "slept w' = slept w1 @ concat (map2 (\<lambda>q st. q @ [snd st]) pauses steps)"
    by blast
  have e1: "request_loop c req (map int [i ..< n]) (rl, w)
             = request_loop c req (map int [i + length (st # steps) ..< n]) (rl', w')"
    using step run lt by (simp add: upt_attempts)
  have e2: "sent w' = sent w @ replicate (length (st # steps)) req"
    using sent' sent1 by (simp add: replicate_app_Cons_same)
  have e3: "length (p # pauses) = length (st # steps)" using len by simp
  have e4: "\<forall>q \<in> set (p # pauses). length q \<le> 1" using le p by simp
  have e5: "slept w' = slept w @ concat (map2 (\<lambda>q st. q @ [snd st]) (p # pauses) (st # steps))"
    using slept' slept1 st by simp
  from e1 rs' e2 e3 e4 e5 show ?case by blast
qed

lemma request_loop_last_raise:
  assumes rs: "rl_sleep rl = sleep_default"
    and a: "max_retries c \<le> int a"
    and s: "\<forall>w'. length (sent w') = length (sent w) \<longrightarrow> session c req w' = Raised e"
  shows "\<exists>rl' w' p. request_loop c req (int a # rest) (rl, w) = (Inl e, (rl', w'))
           \<and> length p \<le> 1 \<and> sent w' = sent w @ [req] \<and> slept w' = slept w @ p"
proof -
  from wait_sleeps [OF rs, of w] obtain p where
    p: "length p \<le> 1"
    and wt: "wait (rl, w)
               = (Inr (), (rl\<lparr>last_ts := clock w + sum_list p\<rparr>,
                           w\<lparr>clock := clock w + sum_list p, slept := slept w @ p\<rparr>))"
    by blast
  let ?rl = "rl\<lparr>last_ts := clock w + sum_list p\<rparr>"
  let ?w0 = "w\<lparr>clock := clock w + sum_list p, slept := slept w @ p\<rparr>"
  let ?w1 = "?w0\<lparr>sent := sent ?w0 @ [req]\<rparr>"
  have so: "session c req ?w0 = Raised e" using s by simp
  have "request_loop c req (int a # rest) (rl, w) = (Inl e, (?rl, ?w1))"
    using wt so a by (simp add: Let_def)
  moreover have "sent ?w1 = sent w @ [req]" by simp
  moreover have "slept ?w1 = slept w @ p" by simp
  ultimately show ?thesis using p by blast
qed

lemma request_loop_last_response:
  assumes rs: "rl_sleep rl = sleep_default"
    and s: "\<forall>w'. length (sent w') = length (sent w) \<longrightarrow> session c req w' = Resp rf"
    and f: "status_code rf \<noteq> 429"
  shows "\<exists>rl' w' p. request_loop c req (int a # rest) (rl, w)
             = ((if ok rf then json rf
                 else Inl (BallDontLieError
                        (''HTTP '' @ str_int (status_code rf) @ '' for '' @ req_method req
                           @ '' '' @ req_url req))), (rl', w'))
           \<and> length p \<le> 1 \<and> sent w' = sent w @ [req] \<and> slept w' = slept w @ p"
proof -
  from wait_sleeps [OF rs, of w] obtain p where
    p: "length p \<le> 1"
    and wt: "wait (rl, w)
               = (Inr (), (rl\<lparr>last_ts := clock w + sum_list p\<rparr>,
                           w\<lparr>clock := clock w + sum_list p, slept := slept w @ p\<rparr>))"
    by blast
  let ?rl = "rl\<lparr>last_ts := clock w + sum_list p\<rparr>"
  let ?w0 = "w\<lparr>clock := clock w + sum_list p, slept := slept w @ p\<rparr>"
  let ?w1 = "?w0\<lparr>sent := sent ?w0 @ [req]\<rparr>"
  have so: "session c req ?w0 = Resp rf" using s by simp
  have "request_loop c req (int a # rest) (rl, w)
          = ((if ok rf then json rf
              else Inl (BallDontLieError
                     (''HTTP '' @ str_int (status_code rf) @ '' for '' @ req_method req
                        @ '' '' @ req_url req))), (?rl, ?w1))"
    using wt so f by (simp add: Let_def)
  moreover have "sent ?w1 = sent w @ [req]" by simp
  moreover have "slept ?w1 = slept w @ p" by simp
  ultimately show ?thesis using p by blast
qed

lemma request_loop_last_429:
  assumes sl: "sleep c = sleep_default"
    and rs: "rl_sleep rl = sleep_default"
    and s: "\<forall>w'. length (sent w') = length (sent w) \<longrightarrow> session c req w' = Resp rf"
    and r: "retried (Resp rf) d"
  shows "\<exists>rl' w' p. request_loop c req [int a] (rl, w)
             = (Inl (BallDontLieError (''Request failed: '' @ req_method req @ '' '' @ req_url req)),
                (rl', w'))
           \<and> length p \<le> 1 \<and> sent w' = sent w @ [req] \<and> slept w' = slept w @ p @ [d]"
proof -
  from wait_sleeps [OF rs, of w] obtain p where
    p: "length p \<le> 1"
    and wt: "wait (rl, w)
               = (Inr (), (rl\<lparr>last_ts := clock w + sum_list p\<rparr>,
                           w\<lparr>clock := clock w + sum_list p, slept := slept w @ p\<rparr>))"
    by blast
  let ?rl = "rl\<lparr>last_ts := clock w + sum_list p\<rparr>"
  let ?w0 = "w\<lparr>clock := clock w + sum_list p, slept := slept w @ p\<rparr>"
  let ?w1 = "?w0\<lparr>sent := sent ?w0 @ [req]\<rparr>"
  let ?w2 = "?w1\<lparr>clock := clock ?w1 + d, slept := slept ?w1 @ [d]\<rparr>"
  have so: "session c req ?w0 = Resp rf" using s by simp
  have d0: "\<not> d < 0" and st: "status_code rf = 429"
    and ra: "(case retry_after rf of None \<Rightarrow> Inr (1 / 2) | Some f \<Rightarrow> f) = Inr d"
    using r by (simp_all add: retried_def)
  have "request_loop c req [int a] (rl, w)
          = (Inl (BallDontLieError (''Request failed: '' @ req_method req @ '' '' @ req_url req)),
             (?rl, ?w2))"
    using wt so st ra sl d0 by (simp add: Let_def sleep_default_def)
  moreover have "sent ?w2 = sent w @ [req]" by simp
  moreover have "slept ?w2 = slept w @ p @ [d]" by simp
  ultimately show ?thesis using p by blast
qed

text \<open>A script of retried outcomes, from the first attempt on: \<open>_request\<close> goes through
  it and arrives at the attempt after the script with the same request sent once per
  outcome and, after each, the sleep of that outcome.\<close>

lemma request_script:
  assumes sl: "sleep c = sleep_default"
    and rs: "rl_sleep rl = sleep_default"
    and m: "0 \<le> max_retries c"
    and k: "length steps \<le> nat (max_retries c)"
    and script: "\<forall>j < length steps. \<forall>w'. length (sent w') = length (sent w) + j
                   \<longrightarrow> session c (request_of c method path params) w' = fst (steps ! j)"
    and r: "\<forall>st \<in> set steps. retried (fst st) (snd st)"
  shows "\<exists>rl' w' pauses.
           request c method path params (rl, w)
             = request_loop c (request_of c method path params)
                 (int (length steps) # map int [Suc (length steps) ..< nat (max_retries c + 1)])
                 (rl', w')
           \<and> rl_sleep rl' = sleep_default
           \<and> sent w' = sent w @ replicate (length steps) (request_of c method path params)
           \<and> length pauses = length steps \<and> (\<forall>q \<in> set pauses. length q \<le> 1)
           \<and> slept w' = slept w @ concat (map2 (\<lambda>q st. q @ [snd st]) pauses steps)"
proof -
  let ?req = "request_of c method path params"
  let ?n = "nat (max_retries c + 1)"
  have a: "int (0 + length steps) \<le> max_retries c" using k m by simp
  have b: "0 + length steps \<le> ?n" using k m by simp
  have lt: "length steps < ?n" using k m by simp
  from request_loop_retried [OF sl rs a b, of w ?req] script r
  obtain rl' w' pauses where
    run: "request_loop c ?req (map int [0 ..< ?n]) (rl, w)
            = request_loop c ?req (map int [0 + length steps ..< ?n]) (rl', w')"
    and rs': "rl_sleep rl' = sleep_default"
    and s1: "sent w' = sent w @ replicate (length steps) ?req"
    and len: "length pauses = length steps" and le: "\<forall>q \<in> set pauses. length q \<le> 1"
    and s2: "slept w' = slept w @ concat (map2 (\<lambda>q st. q @ [snd st]) pauses steps)"
    by blast
  have "request c method path params (rl, w)
          = request_loop c ?req (int (length steps) # map int [Suc (length steps) ..< ?n]) (rl', w')"
    using run upt_attempts [OF lt] by (simp add: request_unfold)
  with rs' s1 len le s2 show ?thesis by blast
qed

text \<open>
  C7, as stated, fails in its last part: when the final attempt fails too, \<open>_request\<close>
  re-raises the exception of the transport as it is; it is not one of the client's own
  classified errors (\<open>BallDontLieError\<close>).
\<close>

theorem request_reraises_transport_exception:
  "fst (request (default_client ''key'' (failing_session (TransportError ''ReadTimeout'')))
          ''GET'' ''/games'' [] (default_limiter, \<lparr>clock = 1000, slept = [], sent = []\<rparr>))
     = Inl (TransportError ''ReadTimeout'')"
  by (simp add: request_def default_client_def default_limiter_def failing_session_def
        wait_def sleep_default_def Let_def upt_rec)

text \<open>
  C7, amended.  Take a client and a limiter that sleep with the module's \<open>_sleep\<close>, with
  \<open>max_retries \<ge> 0\<close>.  Let the first attempts of a request be answered by a script of at
  most \<open>max_retries\<close> retried outcomes: transport exceptions, each its own, and 429
  responses, in any order.  After each of them \<open>_request\<close> sleeps (the fixed backoff of 0.5
  seconds after a transport exception) and sends the same request again; the one budget of
  \<open>max_retries\<close> retries is used by both kinds.  The attempt after the script decides: a
  response other than 429 is returned when it is ok, and raises the BallDontLieError with its
  status when it is not; and when that attempt is the last one, number \<open>max_retries\<close>, and
  the session raises, it is that attempt's exception that is raised again, as it is, not a
  BallDontLieError.  The only other sleeps are the limiter's, at most one before each
  attempt.
\<close>

theorem request_retries_transport_failure:
  assumes "sleep c = sleep_default"
    and "rl_sleep rl = sleep_default"
    and "0 \<le> max_retries c"
    and "length steps \<le> nat (max_retries c)"
    and "\<forall>j < length steps. \<forall>w'. length (sent w') = length (sent w) + j
           \<longrightarrow> session c (request_of c method path params) w' = fst (steps ! j)"
    and "\<forall>st \<in> set steps. retried (fst st) (snd st)"
    and "\<forall>w'. length (sent w') = length (sent w) + length steps
           \<longrightarrow> session c (request_of c method path params) w' = fin"
    and "case fin of Raised e \<Rightarrow> length steps = nat (max_retries c)
         | Resp rf \<Rightarrow> status_code rf \<noteq> 429"
  shows "\<exists>rl' w' pauses p.
           request c method path params (rl, w)
             = ((case fin of
                   Raised e \<Rightarrow> Inl e
                 | Resp rf \<Rightarrow>
                     if ok rf then json rf
                     else Inl (BallDontLieError
                            (''HTTP '' @ str_int (status_code rf) @ '' for '' @ method
                               @ '' '' @ base_url c @ path))),
                (rl', w'))
           \<and> sent w' = sent w @ replicate (Suc (length steps)) (request_of c method path params)
           \<and> length pauses = length steps \<and> (\<forall>q \<in> set pauses. length q \<le> 1)
           \<and> length p \<le> 1
           \<and> slept w' = slept w @ concat (map2 (\<lambda>q st. q @ [snd st]) pauses steps) @ p"
proof -
  let ?req = "request_of c method path params"
  let ?rest = "map int [Suc (length steps) ..< nat (max_retries c + 1)]"
  let ?res = "case fin of
                   Raised e \<Rightarrow> Inl e
                 | Resp rf \<Rightarrow>
                     if ok rf then json rf
                     else Inl (BallDontLieError
                            (''HTTP '' @ str_int (status_code rf) @ '' for '' @ method
                               @ '' '' @ base_url c @ path))"
  from request_script [OF assms(1,2,3,4,5,6)] obtain rl1 w1 pauses where
    run: "request c method path params (rl, w)
            = request_loop c ?req (int (length steps) # ?rest) (rl1, w1)"
    and rs1: "rl_sleep rl1 = sleep_default"
    and s1: "sent w1 = sent w @ replicate (length steps) ?req"
    and len: "length pauses = length steps" and le: "\<forall>q \<in> set pauses. length q \<le> 1"
    and s2: "slept w1 = slept w @ concat (map2 (\<lambda>q st. q @ [snd st]) pauses steps)"
    by blast
  have rm: "req_method ?req = method" "req_url ?req = base_url c @ path"
    by (simp_all add: request_of_def)
  have fin: "\<forall>w'. length (sent w') = length (sent w1) \<longrightarrow> session c ?req w' = fin"
    using assms(7) s1 by simp
  have "\<exists>rl' w' p. request_loop c ?req (int (length steps) # ?rest) (rl1, w1) = (?res, (rl', w'))
           \<and> length p \<le> 1 \<and> sent w' = sent w1 @ [?req] \<and> slept w' = slept w1 @ p"
  proof (cases fin)
    case (Raised e)
    then have a: "max_retries c \<le> int (length steps)" using assms(8,3) by simp
    have s: "\<forall>w'. length (sent w') = length (sent w1) \<longrightarrow> session c ?req w' = Raised e"
      using fin Raised by simp
    from request_loop_last_raise [OF rs1 a s, of ?rest] show ?thesis
      unfolding Raised outcome.case .
  next
    case (Resp rf)
    then have f: "status_code rf \<noteq> 429" using assms(8) by simp
    have s: "\<forall>w'. length (sent w') = length (sent w1) \<longrightarrow> session c ?req w' = Resp rf"
      using fin Resp by simp
    from request_loop_last_response [OF rs1 s f, of "length steps" ?rest]
    show ?thesis unfolding Resp outcome.case rm .
  qed
  then obtain rl' w' p where
    res: "request_loop c ?req (int (length steps) # ?rest) (rl1, w1) = (?res, (rl', w'))"
    and p: "length p \<le> 1" and t1: "sent w' = sent w1 @ [?req]" and t2: "slept w' = slept w1 @ p"
    by blast
  have e1: "request c method path params (rl, w) = (?res, (rl', w'))" using run res by simp
  have e2: "sent w' = sent w @ replicate (Suc (length steps)) ?req"
    using t1 s1 by (simp add: replicate_append_same)
  have e3: "slept w' = slept w @ concat (map2 (\<lambda>q st. q @ [snd st]) pauses steps) @ p"
    using t2 s2 by simp
  from e1 e2 len le p e3 show ?thesis by blast
qed

theorem request_retries_transport_failure_witness:
  "fst (request
         (default_client ''key''
            (script_session
               [Raised (TransportError ''ConnectionError''),
                Resp \<lparr>status_code = 429, retry_after = Some (Inr 0), json = Inr PNone\<rparr>,
                Raised (TransportError ''ReadTimeout'')]
               (Raised (TransportError ''SSLError''))))
         ''GET'' ''/games'' [] (default_limiter, \<lparr>clock = 1000, slept = [], sent = []\<rparr>))
     = Inl (TransportError ''SSLError'')
   \<and> length (sent (snd (snd (request
         (default_client ''key''
            (script_session
               [Raised (TransportError ''ConnectionError''),
                Resp \<lparr>status_code = 429, retry_after = Some (Inr 0), json = Inr PNone\<rparr>,
                Raised (TransportError ''ReadTimeout'')]
               (Raised (TransportError ''SSLError''))))
         ''GET'' ''/games'' [] (default_limiter, \<lparr>clock = 1000, slept = [], sent = []\<rparr>)))))
     = 4
   \<and> fst (request
         (default_client ''key''
            (script_session [Raised (TransportError ''ReadTimeout'')]
               (Resp \<lparr>status_code = 200, retry_after = None,
                      json = Inr (PDict [(''data'', PList [])])\<rparr>)))
         ''GET'' ''/games'' []
         (\<lparr>min_interval_seconds = 1, rl_sleep = sleep_default, last_ts = 0\<rparr>,
          \<lparr>clock = 1000, slept = [], sent = []\<rparr>))
     = Inr (PDict [(''data'', PList [])])
   \<and> length (sent (snd (snd (request
         (default_client ''key''
            (script_session [Raised (TransportError ''ReadTimeout'')]
               (Resp \<lparr>status_code = 200, retry_after = None,
                      json = Inr (PDict [(''data'', PList [])])\<rparr>)))
         ''GET'' ''/games'' []
         (\<lparr>min_interval_seconds = 1, rl_sleep = sleep_default, last_ts = 0\<rparr>,
          \<lparr>clock = 1000, slept = [], sent = []\<rparr>)))))
     = 2"
proof -
  let ?w = "\<lparr>clock = 1000, slept = [], sent = []\<rparr>"
  let ?r429 = "\<lparr>status_code = 429, retry_after = Some (Inr 0), json = Inr PNone\<rparr>"
  let ?steps = "[(Raised (TransportError ''ConnectionError''), 1 / 2), (Resp ?r429, 0),
                 (Raised (TransportError ''ReadTimeout''), 1 / 2)] :: (outcome \<times> real) list"
  let ?fin = "Raised (TransportError ''SSLError'')"
  let ?c = "default_client ''key''
              (script_session
                 [Raised (TransportError ''ConnectionError''), Resp ?r429,
                  Raised (TransportError ''ReadTimeout'')] ?fin)"
  let ?req = "request_of ?c ''GET'' ''/games'' []"
  have h1: "sleep ?c = sleep_default" by (simp add: default_client_def)
  have h2: "rl_sleep default_limiter = sleep_default" by (simp add: default_limiter_def)
  have h3: "0 \<le> max_retries ?c" by (simp add: default_client_def)
  have h4: "length ?steps \<le> nat (max_retries ?c)" by (simp add: default_client_def)
  have h5: "\<forall>j < length ?steps. \<forall>w'. length (sent w') = length (sent ?w) + j
              \<longrightarrow> session ?c ?req w' = fst (?steps ! j)"
    by (auto simp: default_client_def script_session_def nth_Cons' less_Suc_eq)
  have h6: "\<forall>st \<in> set ?steps. retried (fst st) (snd st)" by (simp add: retried_def)
  have h7: "\<forall>w'. length (sent w') = length (sent ?w) + length ?steps
              \<longrightarrow> session ?c ?req w' = ?fin"
    by (simp add: default_client_def script_session_def)
  have h8: "case ?fin of Raised e \<Rightarrow> length ?steps = nat (max_retries ?c)
            | Resp rf \<Rightarrow> status_code rf \<noteq> 429"
    by (simp add: default_client_def)
  from request_retries_transport_failure [OF h1 h2 h3 h4 h5 h6 h7 h8]
  obtain rl' w' where
    res: "request ?c ''GET'' ''/games'' [] (default_limiter, ?w)
            = (Inl (TransportError ''SSLError''), (rl', w'))"
    and st: "sent w' = sent ?w @ replicate (Suc (length ?steps)) ?req"
    by auto
  have a: "fst (request ?c ''GET'' ''/games'' [] (default_limiter, ?w))
             = Inl (TransportError ''SSLError'')"
    unfolding res by simp
  have b: "length (sent (snd (snd (request ?c ''GET'' ''/games'' [] (default_limiter, ?w))))) = 4"
    unfolding res using st by simp
  let ?rl = "\<lparr>min_interval_seconds = 1, rl_sleep = sleep_default, last_ts = 0\<rparr>"
  let ?ok = "\<lparr>status_code = 200, retry_after = None, json = Inr (PDict [(''data'', PList [])])\<rparr>"
  let ?steps2 = "[(Raised (TransportError ''ReadTimeout''), 1 / 2)] :: (outcome \<times> real) list"
  let ?c2 = "default_client ''key'' (script_session [Raised (TransportError ''ReadTimeout'')] (Resp ?ok))"
  let ?req2 = "request_of ?c2 ''GET'' ''/games'' []"
  have g1: "sleep ?c2 = sleep_default" by (simp add: default_client_def)
  have g2: "rl_sleep ?rl = sleep_default" by simp
  have g3: "0 \<le> max_retries ?c2" by (simp add: default_client_def)
  have g4: "length ?steps2 \<le> nat (max_retries ?c2)" by (simp add: default_client_def)
  have g5: "\<forall>j < length ?steps2. \<forall>w'. length (sent w') = length (sent ?w) + j
              \<longrightarrow> session ?c2 ?req2 w' = fst (?steps2 ! j)"
    by (auto simp: default_client_def script_session_def)
  have g6: "\<forall>st \<in> set ?steps2. retried (fst st) (snd st)" by (simp add: retried_def)
  have g7: "\<forall>w'. length (sent w') = length (sent ?w) + length ?steps2
              \<longrightarrow> session ?c2 ?req2 w' = Resp ?ok"
    by (simp add: default_client_def script_session_def)
  have g8: "case Resp ?ok of Raised e \<Rightarrow> length ?steps2 = nat (max_retries ?c2)
            | Resp rf \<Rightarrow> status_code rf \<noteq> 429"
    by simp
  from request_retries_transport_failure [OF g1 g2 g3 g4 g5 g6 g7 g8]
  obtain rl2 w2 where
    res2: "request ?c2 ''GET'' ''/games'' [] (?rl, ?w)
            = (Inr (PDict [(''data'', PList [])]), (rl2, w2))"
    and st2: "sent w2 = sent ?w @ replicate (Suc (length ?steps2)) ?req2"
    by (auto simp: ok_def)
  have c: "fst (request ?c2 ''GET'' ''/games'' [] (?rl, ?w)) = Inr (PDict [(''data'', PList [])])"
    unfolding res2 by simp
  have d: "length (sent (snd (snd (request ?c2 ''GET'' ''/games'' [] (?rl, ?w))))) = 2"
    unfolding res2 using st2 by simp
  from a b c d show ?thesis by (intro conjI)
qed

subsection \<open>HTTP 429 and other error statuses\<close>

text \<open>
  C8, as stated, fails in its first part: a 429 is not always followed by a retry.  The 429
  responses use up the same \<open>max_retries + 1\<close> attempts as the transport failures; after a
  429 on the last attempt the client sleeps and then raises.  Against an upstream that
  answers 429 every time, the default client sends 4 requests and fails.
\<close>

theorem request_gives_up_after_last_429:
  "fst (request
         (default_client ''key''
            (script_session []
               (Resp \<lparr>status_code = 429, retry_after = Some (Inr 1), json = Inr PNone\<rparr>)))
         ''GET'' ''/games'' [] (default_limiter, \<lparr>clock = 1000, slept = [], sent = []\<rparr>))
     = Inl (BallDontLieError ''Request failed: GET https://api.balldontlie.io/nfl/v1/games'')
   \<and> length (sent (snd (snd (request
         (default_client ''key''
            (script_session []
               (Resp \<lparr>status_code = 429, retry_after = Some (Inr 1), json = Inr PNone\<rparr>)))
         ''GET'' ''/games'' [] (default_limiter, \<lparr>clock = 1000, slept = [], sent = []\<rparr>)))))
     = 4"
  by (simp add: request_def default_client_def default_limiter_def script_session_def
        wait_def sleep_default_def Let_def upt_rec)

text \<open>
  C8, amended.  Take a client and a limiter that sleep with the module's \<open>_sleep\<close>, with
  \<open>max_retries \<ge> 0\<close>, and let the first attempts of a request be answered by a script of
  at most \<open>max_retries\<close> retried outcomes, 429 responses and transport exceptions in any
  order.  After each 429 among them the client sleeps the delay that \<open>float()\<close> reads from
  the \<open>Retry-After\<close> header, the fixed backoff 0.5 when there is no header (the delay is
  not negative, as \<open>time.sleep\<close> requires), and sends the same request again, same
  parameters and so same cursor; the budget of \<open>max_retries + 1\<close> attempts is the one that
  the transport failures use.  The response to the next attempt decides.  If its status is
  from 400 to 599 and not 429, the client fails at once, no sleep and no further send, with
  the BallDontLieError that carries the status code; another response that is not a 429 is
  returned.  If it is a 429 again and the attempt was the last one, the client sleeps its
  delay and then raises the BallDontLieError ``Request failed''.  The only other sleeps are
  the limiter's, at most one before each attempt.
\<close>

theorem request_429_sleeps_and_retries_within_budget:
  assumes "sleep c = sleep_default"
    and "rl_sleep rl = sleep_default"
    and "0 \<le> max_retries c"
    and "length steps \<le> nat (max_retries c)"
    and "\<forall>j < length steps. \<forall>w'. length (sent w') = length (sent w) + j
           \<longrightarrow> session c (request_of c method path params) w' = fst (steps ! j)"
    and "\<forall>st \<in> set steps. retried (fst st) (snd st)"
    and "\<forall>w'. length (sent w') = length (sent w) + length steps
           \<longrightarrow> session c (request_of c method path params) w' = Resp rf"
    and "status_code rf = 429 \<longrightarrow> length steps = nat (max_retries c) \<and> retried (Resp rf) d"
  shows "\<exists>rl' w' pauses p.
           request c method path params (rl, w)
             = ((if status_code rf = 429
                 then Inl (BallDontLieError
                        (''Request failed: '' @ method @ '' '' @ base_url c @ path))
                 else if ok rf then json rf
                 else Inl (BallDontLieError
                        (''HTTP '' @ str_int (status_code rf) @ '' for '' @ method
                           @ '' '' @ base_url c @ path))),
                (rl', w'))
           \<and> sent w' = sent w @ replicate (Suc (length steps)) (request_of c method path params)
           \<and> length pauses = length steps \<and> (\<forall>q \<in> set pauses. length q \<le> 1)
           \<and> length p \<le> 1
           \<and> slept w' = slept w @ concat (map2 (\<lambda>q st. q @ [snd st]) pauses steps) @ p
                          @ (if status_code rf = 429 then [d] else [])"
proof -
  let ?req = "request_of c method path params"
  let ?rest = "map int [Suc (length steps) ..< nat (max_retries c + 1)]"
  let ?res = "if status_code rf = 429
                 then Inl (BallDontLieError
                        (''Request failed: '' @ method @ '' '' @ base_url c @ path))
                 else if ok rf then json rf
                 else Inl (BallDontLieError
                        (''HTTP '' @ str_int (status_code rf) @ '' for '' @ method
                           @ '' '' @ base_url c @ path))"
  let ?tail = "if status_code rf = 429 then [d] else []"
  from request_script [OF assms(1,2,3,4,5,6)] obtain rl1 w1 pauses where
    run: "request c method path params (rl, w)
            = request_loop c ?req (int (length steps) # ?rest) (rl1, w1)"
    and rs1: "rl_sleep rl1 = sleep_default"
    and s1: "sent w1 = sent w @ replicate (length steps) ?req"
    and len: "length pauses = length steps" and le: "\<forall>q \<in> set pauses. length q \<le> 1"
    and s2: "slept w1 = slept w @ concat (map2 (\<lambda>q st. q @ [snd st]) pauses steps)"
    by blast
  have rm: "req_method ?req = method" "req_url ?req = base_url c @ path"
    by (simp_all add: request_of_def)
  have s: "\<forall>w'. length (sent w') = length (sent w1) \<longrightarrow> session c ?req w' = Resp rf"
    using assms(7) s1 by simp
  have "\<exists>rl' w' p. request_loop c ?req (int (length steps) # ?rest) (rl1, w1) = (?res, (rl', w'))
           \<and> length p \<le> 1 \<and> sent w' = sent w1 @ [?req] \<and> slept w' = slept w1 @ p @ ?tail"
  proof (cases "status_code rf = 429")
    case True
    with assms(8) have k: "length steps = nat (max_retries c)" and r: "retried (Resp rf) d"
      by simp_all
    have e: "?rest = []" using k assms(3) by simp
    from request_loop_last_429 [OF assms(1) rs1 s r, of "length steps"]
    show ?thesis unfolding e rm using True by simp
  next
    case False
    from request_loop_last_response [OF rs1 s False, of "length steps" ?rest]
    show ?thesis unfolding rm using False by (simp del: request_loop.simps)
  qed
  then obtain rl' w' p where
    res: "request_loop c ?req (int (length steps) # ?rest) (rl1, w1) = (?res, (rl', w'))"
    and p: "length p \<le> 1" and t1: "sent w' = sent w1 @ [?req]"
    and t2: "slept w' = slept w1 @ p @ ?tail"
    by blast
  have e1: "request c method path params (rl, w) = (?res, (rl', w'))" using run res by simp
  have e2: "sent w' = sent w @ replicate (Suc (length steps)) ?req"
    using t1 s1 by (simp add: replicate_append_same)
  have e3: "slept w' = slept w @ concat (map2 (\<lambda>q st. q @ [snd st]) pauses steps) @ p @ ?tail"
    using t2 s2 by simp
  from e1 e2 len le p e3 show ?thesis by blast
qed

theorem request_429_sleeps_and_retries_within_budget_witness:
  "fst (request
         (default_client ''key''
            (script_session
               [Resp \<lparr>status_code = 429, retry_after = Some (Inr 0), json = Inr PNone\<rparr>,
                Raised (TransportError ''ConnectionError'')]
               (Resp \<lparr>status_code = 503, retry_after = None, json = Inr PNone\<rparr>)))
         ''GET'' ''/games'' [] (default_limiter, \<lparr>clock = 1000, slept = [], sent = []\<rparr>))
     = Inl (BallDontLieError ''HTTP 503 for GET https://api.balldontlie.io/nfl/v1/games'')
   \<and> length (sent (snd (snd (request
         (default_client ''key''
            (script_session
               [Resp \<lparr>status_code = 429, retry_after = Some (Inr 0), json = Inr PNone\<rparr>,
                Raised (TransportError ''ConnectionError'')]
               (Resp \<lparr>status_code = 503, retry_after = None, json = Inr PNone\<rparr>)))
         ''GET'' ''/games'' [] (default_limiter, \<lparr>clock = 1000, slept = [], sent = []\<rparr>)))))
     = 3
   \<and> fst (request
         (default_client ''key''
            (script_session
               [Resp \<lparr>status_code = 429, retry_after = None, json = Inr PNone\<rparr>,
                Resp \<lparr>status_code = 429, retry_after = Some (Inr 2), json = Inr PNone\<rparr>,
                Raised (TransportError ''ReadTimeout'')]
               (Resp \<lparr>status_code = 429, retry_after = Some (Inr 1), json = Inr PNone\<rparr>)))
         ''GET'' ''/games'' []
         (\<lparr>min_interval_seconds = 1, rl_sleep = sleep_default, last_ts = 0\<rparr>,
          \<lparr>clock = 1000, slept = [], sent = []\<rparr>))
     = Inl (BallDontLieError ''Request failed: GET https://api.balldontlie.io/nfl/v1/games'')
   \<and> length (sent (snd (snd (request
         (default_client ''key''
            (script_session
               [Resp \<lparr>status_code = 429, retry_after = None, json = Inr PNone\<rparr>,
                Resp \<lparr>status_code = 429, retry_after = Some (Inr 2), json = Inr PNone\<rparr>,
                Raised (TransportError ''ReadTimeout'')]
               (Resp \<lparr>status_code = 429, retry_after = Some (Inr 1), json = Inr PNone\<rparr>)))
         ''GET'' ''/games'' []
         (\<lparr>min_interval_seconds = 1, rl_sleep = sleep_default, last_ts = 0\<rparr>,
          \<lparr>clock = 1000, slept = [], sent = []\<rparr>)))))
     = 4"
proof -
  let ?w = "\<lparr>clock = 1000, slept = [], sent = []\<rparr>"
  let ?r0 = "\<lparr>status_code = 429, retry_after = Some (Inr 0), json = Inr PNone\<rparr>"
  let ?rf = "\<lparr>status_code = 503, retry_after = None, json = Inr PNone\<rparr>"
  let ?steps = "[(Resp ?r0, 0), (Raised (TransportError ''ConnectionError''), 1 / 2)]
                  :: (outcome \<times> real) list"
  let ?c = "default_client ''key''
              (script_session [Resp ?r0, Raised (TransportError ''ConnectionError'')] (Resp ?rf))"
  let ?req = "request_of ?c ''GET'' ''/games'' []"
  have h1: "sleep ?c = sleep_default" by (simp add: default_client_def)
  have h2: "rl_sleep default_limiter = sleep_default" by (simp add: default_limiter_def)
  have h3: "0 \<le> max_retries ?c" by (simp add: default_client_def)
  have h4: "length ?steps \<le> nat (max_retries ?c)" by (simp add: default_client_def)
  have h5: "\<forall>j < length ?steps. \<forall>w'. length (sent w') = length (sent ?w) + j
              \<longrightarrow> session ?c ?req w' = fst (?steps ! j)"
    by (auto simp: default_client_def script_session_def nth_Cons' less_Suc_eq)
  have h6: "\<forall>st \<in> set ?steps. retried (fst st) (snd st)" by (simp add: retried_def)
  have h7: "\<forall>w'. length (sent w') = length (sent ?w) + length ?steps
              \<longrightarrow> session ?c ?req w' = Resp ?rf"
    by (simp add: default_client_def script_session_def)
  have h8: "status_code ?rf = 429
              \<longrightarrow> length ?steps = nat (max_retries ?c) \<and> retried (Resp ?rf) 0"
    by simp
  have code: "str_int 503 = ''503''" by code_simp
  from request_429_sleeps_and_retries_within_budget [OF h1 h2 h3 h4 h5 h6 h7 h8]
  obtain rl' w' where
    res: "request ?c ''GET'' ''/games'' [] (default_limiter, ?w)
            = (Inl (BallDontLieError ''HTTP 503 for GET https://api.balldontlie.io/nfl/v1/games''),
               (rl', w'))"
    and st: "sent w' = sent ?w @ replicate (Suc (length ?steps)) ?req"
    by (auto simp: ok_def code default_client_def)
  have a: "fst (request ?c ''GET'' ''/games'' [] (default_limiter, ?w))
             = Inl (BallDontLieError ''HTTP 503 for GET https://api.balldontlie.io/nfl/v1/games'')"
    unfolding res by simp
  have b: "length (sent (snd (snd (request ?c ''GET'' ''/games'' [] (default_limiter, ?w))))) = 3"
    unfolding res using st by simp
  let ?rl = "\<lparr>min_interval_seconds = 1, rl_sleep = sleep_default, last_ts = 0\<rparr>"
  let ?ra = "\<lparr>status_code = 429, retry_after = None, json = Inr PNone\<rparr>"
  let ?rb = "\<lparr>status_code = 429, retry_after = Some (Inr 2), json = Inr PNone\<rparr>"
  let ?rl429 = "\<lparr>status_code = 429, retry_after = Some (Inr 1), json = Inr PNone\<rparr>"
  let ?steps2 = "[(Resp ?ra, 1 / 2), (Resp ?rb, 2), (Raised (TransportError ''ReadTimeout''), 1 / 2)]
                   :: (outcome \<times> real) list"
  let ?c2 = "default_client ''key''
               (script_session [Resp ?ra, Resp ?rb, Raised (TransportError ''ReadTimeout'')]
                  (Resp ?rl429))"
  let ?req2 = "request_of ?c2 ''GET'' ''/games'' []"
  have g1: "sleep ?c2 = sleep_default" by (simp add: default_client_def)
  have g2: "rl_sleep ?rl = sleep_default" by simp
  have g3: "0 \<le> max_retries ?c2" by (simp add: default_client_def)
  have g4: "length ?steps2 \<le> nat (max_retries ?c2)" by (simp add: default_client_def)
  have g5: "\<forall>j < length ?steps2. \<forall>w'. length (sent w') = length (sent ?w) + j
              \<longrightarrow> session ?c2 ?req2 w' = fst (?steps2 ! j)"
    by (auto simp: default_client_def script_session_def nth_Cons' less_Suc_eq)
  have g6: "\<forall>st \<in> set ?steps2. retried (fst st) (snd st)" by (simp add: retried_def)
  have g7: "\<forall>w'. length (sent w') = length (sent ?w) + length ?steps2
              \<longrightarrow> session ?c2 ?req2 w' = Resp ?rl429"
    by (simp add: default_client_def script_session_def)
  have g8: "status_code ?rl429 = 429
              \<longrightarrow> length ?steps2 = nat (max_retries ?c2) \<and> retried (Resp ?rl429) 1"
    by (simp add: default_client_def retried_def)
  from request_429_sleeps_and_retries_within_budget [OF g1 g2 g3 g4 g5 g6 g7 g8]
  obtain rl2 w2 where
    res2: "request ?c2 ''GET'' ''/games'' [] (?rl, ?w)
            = (Inl (BallDontLieError
                      ''Request failed: GET https://api.balldontlie.io/nfl/v1/games''),
               (rl2, w2))"
    and st2: "sent w2 = sent ?w @ replicate (Suc (length ?steps2)) ?req2"
    by (auto simp: default_client_def)
  have c: "fst (request ?c2 ''GET'' ''/games'' [] (?rl, ?w))
             = Inl (BallDontLieError
                      ''Request failed: GET https://api.balldontlie.io/nfl/v1/games'')"
    unfolding res2 by simp
  have d: "length (sent (snd (snd (request ?c2 ''GET'' ''/games'' [] (?rl, ?w))))) = 4"
    unfolding res2 using st2 by simp
  from a b c d show ?thesis by (intro conjI)
qed

subsection \<open>Pagination\<close>

lemma request_ok:
  assumes sl: "rl_sleep rl = sleep_default"
    and mr: "0 \<le> max_retries c"
    and resp: "\<forall>w'. session c (request_of c method path params) w' = Resp r"
    and st: "status_code r \<noteq> 429" "ok r"
  shows "\<exists>rl' w'. request c method path params (rl, w) = (json r, (rl', w'))
           \<and> rl_sleep rl' = sleep_default
           \<and> sent w' = sent w @ [request_of c method path params]"
proof -
  let ?req = "request_of c method path params"
  define n where "n = nat (max_retries c + 1)"
  have n0: "0 < n" using mr by (simp add: n_def)
  from wait_default [OF sl, of w] obtain pre where
    rdy: "limiter_ready rl (w\<lparr>clock := clock w + sum_list pre, slept := slept w @ pre\<rparr>)"
    and wt: "wait (rl, w) = wait (rl, w\<lparr>clock := clock w + sum_list pre, slept := slept w @ pre\<rparr>)"
    by blast
  let ?w0 = "w\<lparr>clock := clock w + sum_list pre, slept := slept w @ pre\<rparr>"
  have att: "map int [0 ..< n] = int 0 # map int [Suc 0 ..< n]" using n0 by (rule upt_attempts)
  have "request c method path params (rl, w) = request_loop c ?req (map int [0 ..< n]) (rl, w)"
    by (simp add: request_unfold n_def)
  also have "\<dots> = request_loop c ?req (map int [0 ..< n]) (rl, ?w0)"
    unfolding att using wt by (rule request_loop_wait_cong)
  also have "\<dots> = (json r, (rl\<lparr>last_ts := clock ?w0\<rparr>, ?w0\<lparr>sent := sent ?w0 @ [?req]\<rparr>))"
    unfolding att using wait_ready [OF rdy] resp st by (simp add: Let_def)
  finally show ?thesis using sl by simp
qed

lemma parse_int_7: "parse_int ''7'' = Some 7"
  by code_simp

lemma dict_get_Nil: "dict_get [] k = PNone"
  by (simp add: dict_get_def)

lemma envelope_data: "dict_get_default [(''data'', d), (''meta'', m)] ''data'' x = d"
  by (simp add: dict_get_default_def)

lemma envelope_meta: "dict_get [(''data'', d), (''meta'', m)] ''meta'' = m"
  by (simp add: dict_get_def)

text \<open>
  C5.  The client sleeps with the module's \<open>_sleep\<close> and has \<open>max_retries \<ge> 0\<close>.  The
  upstream answers the request without a cursor with a successful page of the two records
  \<open>r1\<close>, \<open>r2\<close> and \<open>next_cursor\<close> \<open>"7"\<close>, and the request with \<open>cursor=7\<close> with a
  successful page of the one record \<open>r3\<close> and no \<open>next_cursor\<close>.  Then \<open>paginate\<close> ends:
  it yields exactly \<open>r1\<close>, \<open>r2\<close>, \<open>r3\<close> in this order, raises nothing, and has sent exactly
  these two requests.
\<close>

theorem paginate_yields_three_records_and_stops:
  assumes "rl_sleep rl = sleep_default"
    and "0 \<le> max_retries c"
    and "\<forall>w'. session c (request_of c ''GET'' path (page_params c params None)) w' = Resp page1"
    and "\<forall>w'. session c (request_of c ''GET'' path (page_params c params (Some 7))) w' = Resp page2"
    and "status_code page1 \<noteq> 429 \<and> ok page1 \<and> status_code page2 \<noteq> 429 \<and> ok page2"
    and "json page1 = Inr (PDict [(''data'', PList [r1, r2]), (''meta'', PDict meta1)])"
    and "dict_get meta1 ''next_cursor'' = PStr ''7''"
    and "json page2 = Inr (PDict [(''data'', PList [r3]), (''meta'', PDict meta2)])"
    and "dict_get meta2 ''next_cursor'' = PNone"
  shows "\<exists>s'. paginate c path params (rl, w) = Some (([r1, r2, r3], None), s')
           \<and> sent (snd s') = sent w @ [request_of c ''GET'' path (page_params c params None),
                                      request_of c ''GET'' path (page_params c params (Some 7))]"
proof -
  from assms(5) have st: "status_code page1 \<noteq> 429" "ok page1" "status_code page2 \<noteq> 429" "ok page2"
    by simp_all
  from request_ok [OF assms(1,2,3) st(1,2), of w] obtain rl1 w1 where
    q1: "request c ''GET'' path (page_params c params None) (rl, w) = (json page1, (rl1, w1))"
    and sl1: "rl_sleep rl1 = sleep_default"
    and s1: "sent w1 = sent w @ [request_of c ''GET'' path (page_params c params None)]"
    by blast
  from request_ok [OF sl1 assms(2,4) st(3,4), of w1] obtain rl2 w2 where
    q2: "request c ''GET'' path (page_params c params (Some 7)) (rl1, w1) = (json page2, (rl2, w2))"
    and s2: "sent w2 = sent w1 @ [request_of c ''GET'' path (page_params c params (Some 7))]"
    by blast
  have m1: "meta1 \<noteq> []" using assms(7) by (auto simp: dict_get_def)
  have p2: "paginate_loop c path params (Some 7) [r1, r2] (rl1, w1)
              = Some (([r1, r2, r3], None), (rl2, w2))"
    by (subst paginate_loop.simps)
       (simp add: q2 assms(8,9) ebind_def envelope_data envelope_meta py_or_def dict_get_Nil)
  have p1: "paginate_loop c path params None [] (rl, w)
              = paginate_loop c path params (Some 7) [r1, r2] (rl1, w1)"
    by (subst paginate_loop.simps)
       (simp add: q1 assms(6,7) m1 ebind_def envelope_data envelope_meta py_or_def parse_int_7)
  have "paginate c path params (rl, w) = Some (([r1, r2, r3], None), (rl2, w2))"
    using p1 p2 by (simp add: paginate_def)
  moreover have "sent w2 = sent w @ [request_of c ''GET'' path (page_params c params None),
                                      request_of c ''GET'' path (page_params c params (Some 7))]"
    using s1 s2 by simp
  ultimately show ?thesis by simp
qed


theorem paginate_yields_three_records_and_stops_witness:
  "\<exists>s'. paginate
          (default_client ''key''
             (cursor_session
                [(PNone,
                  \<lparr>status_code = 200, retry_after = None,
                   json = Inr (PDict [(''data'', PList [PDict [(''id'', PInt 1)], PDict [(''id'', PInt 2)]]),
                                      (''meta'', PDict [(''next_cursor'', PStr ''7''),
                                                        (''per_page'', PInt 100)])])\<rparr>),
                 (PInt 7,
                  \<lparr>status_code = 200, retry_after = None,
                   json = Inr (PDict [(''data'', PList [PDict [(''id'', PInt 3)]]),
                                      (''meta'', PDict [(''per_page'', PInt 100)])])\<rparr>)]))
          ''/games'' [(''seasons[]'', PList [PInt 2025])]
          (default_limiter, \<lparr>clock = 1000, slept = [], sent = []\<rparr>)
        = Some (([PDict [(''id'', PInt 1)], PDict [(''id'', PInt 2)], PDict [(''id'', PInt 3)]], None), s')
      \<and> length (sent (snd s')) = 2"
proof -
  let ?page1 = "\<lparr>status_code = 200, retry_after = None,
                   json = Inr (PDict [(''data'', PList [PDict [(''id'', PInt 1)], PDict [(''id'', PInt 2)]]),
                                      (''meta'', PDict [(''next_cursor'', PStr ''7''),
                                                        (''per_page'', PInt 100)])])\<rparr>"
  let ?page2 = "\<lparr>status_code = 200, retry_after = None,
                   json = Inr (PDict [(''data'', PList [PDict [(''id'', PInt 3)]]),
                                      (''meta'', PDict [(''per_page'', PInt 100)])])\<rparr>"
  let ?c = "default_client ''key'' (cursor_session [(PNone, ?page1), (PInt 7, ?page2)])"
  let ?params = "[(''seasons[]'', PList [PInt 2025])]"
  let ?w = "\<lparr>clock = 1000, slept = [], sent = []\<rparr>"
  have h1: "rl_sleep default_limiter = sleep_default" by (simp add: default_limiter_def)
  have h2: "0 \<le> max_retries ?c" by (simp add: default_client_def)
  have h3: "\<forall>w'. session ?c (request_of ?c ''GET'' ''/games'' (page_params ?c ?params None)) w'
              = Resp ?page1"
    by (simp add: default_client_def cursor_session_def request_of_def page_params_def
          dict_get_def)
  have h4: "\<forall>w'. session ?c (request_of ?c ''GET'' ''/games'' (page_params ?c ?params (Some 7))) w'
              = Resp ?page2"
    by (simp add: default_client_def cursor_session_def request_of_def page_params_def
          dict_get_def)
  have h5: "status_code ?page1 \<noteq> 429 \<and> ok ?page1 \<and> status_code ?page2 \<noteq> 429 \<and> ok ?page2"
    by (simp add: ok_def)
  have h6: "json ?page1 = Inr (PDict [(''data'', PList [PDict [(''id'', PInt 1)], PDict [(''id'', PInt 2)]]),
                 (''meta'', PDict [(''next_cursor'', PStr ''7''), (''per_page'', PInt 100)])])"
    by simp
  have h7: "dict_get [(''next_cursor'', PStr ''7''), (''per_page'', PInt 100)] ''next_cursor'' = PStr ''7''"
    by (simp add: dict_get_def)
  have h8: "json ?page2 = Inr (PDict [(''data'', PList [PDict [(''id'', PInt 3)]]),
                 (''meta'', PDict [(''per_page'', PInt 100)])])"
    by simp
  have h9: "dict_get [(''per_page'', PInt 100)] ''next_cursor'' = PNone"
    by (simp add: dict_get_def)
  from paginate_yields_three_records_and_stops [OF h1 h2 h3 h4 h5 h6 h7 h8 h9, of ?w]
  obtain s' where
    "paginate ?c ''/games'' ?params (default_limiter, ?w)
       = Some (([PDict [(''id'', PInt 1)], PDict [(''id'', PInt 2)], PDict [(''id'', PInt 3)]], None), s')"
    "sent (snd s') = sent ?w @ [request_of ?c ''GET'' ''/games'' (page_params ?c ?params None),
                                request_of ?c ''GET'' ''/games'' (page_params ?c ?params (Some 7))]"
    by blast
  then show ?thesis by (intro exI [of _ s']) simp
qed

subsection \<open>Per-game isolation in the props loop\<close>

text \<open>
  A \<open>BallDontLieError\<close> raised while one game's props are fetched is caught: the game is
  skipped and the next one is processed.
\<close>

lemma props_loop_skips_game_on_api_error:
  "ingest_player_props_filtered (frozen_clock ''t'') [1, 2] recording_upsert
     (props_upstream
        [(1, ([], Some (BallDontLieError ''HTTP 500 for GET /odds/player_props''))),
         (2, ([[(''id'', PInt 7), (''game_id'', PInt 2), (''player_id'', PInt 55),
                (''vendor'', PStr ''draftkings''), (''prop_type'', PStr ''passing_yards''),
                (''market'', PDict [(''type'', PStr ''over_under'')])]], None))])
     None 500 []
   = (Inr 1,
      [(''nfl_player_props'',
        [[(''id'', PInt 7), (''game_id'', PInt 2), (''player_id'', PInt 55),
          (''vendor'', PStr ''draftkings''), (''prop_type'', PStr ''passing_yards''),
          (''market_type'', PStr ''over_under''), (''line_value'', PNone),
          (''over_odds'', PNone), (''under_odds'', PNone), (''milestone_odds'', PNone),
          (''updated_at'', PStr ''t'')]],
        ''id'')])"
  by code_simp

text \<open>
  C9: in \<open>ingest_player_props_filtered\<close> a failure on one game is meant not to abort the
  remaining games.  The code catches \<open>BallDontLieError\<close> only.  When the fetch of game 1
  ends in a transport exception (what the client re-raises once its retries are used up), the
  whole call raises it: game 2, whose props are fine, is never fetched, nothing is written and
  no count is returned.  A failure of the store on game 2 likewise ends the call, before
  game 3 is looked at.
\<close>

theorem props_loop_aborts_on_uncaught_failure:
  "ingest_player_props_filtered (frozen_clock ''t'') [1, 2] recording_upsert
     (props_upstream
        [(1, ([], Some (TransportError ''ReadTimeout''))),
         (2, ([[(''id'', PInt 7), (''game_id'', PInt 2), (''player_id'', PInt 55),
                (''vendor'', PStr ''draftkings''), (''prop_type'', PStr ''passing_yards''),
                (''market'', PDict [(''type'', PStr ''over_under'')])]], None))])
     None 500 []
   = (Inl (TransportError ''ReadTimeout''), [])
   \<and> fst (ingest_player_props_filtered (frozen_clock ''t'') [2, 3] failing_upsert
     (props_upstream
        [(2, ([[(''id'', PInt 7), (''game_id'', PInt 2), (''player_id'', PInt 55),
                (''vendor'', PStr ''draftkings''), (''prop_type'', PStr ''passing_yards''),
                (''market'', PDict [(''type'', PStr ''over_under'')])]], None)),
         (3, ([[(''id'', PInt 8), (''game_id'', PInt 3), (''player_id'', PInt 56),
                (''vendor'', PStr ''fanduel''), (''prop_type'', PStr ''rushing_yards''),
                (''market'', PDict [(''type'', PStr ''over_under'')])]], None))])
     None 500 [])
   = Inl (StoreError ''store unavailable'')"
  by code_simp


subsection \<open>Required fields of the rows handed to the store\<close>

lemma valid_rows_loop_complete:
  "r \<in> set (fst (valid_rows_loop m req thr cnt rows)) \<Longrightarrow> \<not> missing_required req r"
proof (induction rows arbitrary: cnt)
  case Nil
  then show ?case by simp
next
  case (Cons raw rows)
  show ?case
  proof (cases "missing_required req (m raw)")
    case True
    with Cons.prems have "r \<in> set (fst (valid_rows_loop m req thr (cnt + 1) rows))"
      by (simp add: Let_def split: if_splits)
    then show ?thesis by (rule Cons.IH)
  next
    case False
    with Cons.prems have "r = m raw \<or> r \<in> set (fst (valid_rows_loop m req thr cnt rows))"
      by (simp add: Let_def split: prod.splits)
    then show ?thesis using False Cons.IH by blast
  qed
qed

text \<open>
  Where the rows go through \<open>_valid_rows\<close>, every row that comes out has all its required
  fields: the per-game statistics with a record that names no player forward nothing.
\<close>

lemma valid_rows_complete:
  "r \<in> set (fst (valid_rows mapper req thr g)) \<Longrightarrow> \<not> missing_required req r"
proof -
  assume a: "r \<in> set (fst (valid_rows mapper req thr g))"
  obtain m where m: "m = (case mapper of None \<Rightarrow> (\<lambda>x. x) | Some f \<Rightarrow> f)" by simp
  have "fst (valid_rows mapper req thr g) = fst (valid_rows_loop m req thr 0 (fst g))"
    unfolding valid_rows_def m by (simp add: Let_def split: prod.splits option.splits)
  with a show ?thesis using valid_rows_loop_complete by metis
qed

lemma game_stats_drop_row_without_player:
  "ingest_stats_and_advanced (frozen_clock ''t'') [2024] recording_upsert
     (game_stats_upstream ([[(''season'', PInt 2024), (''games_played'', PInt 3)]], None))
     500 False True False None False 25 []
   = (Inr \<lparr>season_stats_upserted = 0, game_stats_upserted = 0, adv_receiving_upserted = 0,
            adv_rushing_upserted = 0, adv_passing_upserted = 0\<rparr>, [])"
  by code_simp

text \<open>
  C3: every row handed to an upsert call is meant to have its required fields.  The
  season-statistics path of \<open>ingest_stats_and_advanced\<close> maps the records and hands the
  chunks to the store without validating them.  A season record that names no player is
  written to \<open>nfl_player_season_stats\<close> with \<open>player_id\<close> null, a column of that table's
  key.
\<close>

theorem season_stats_forward_row_without_player:
  "forwarded_field ''player_id''
     (snd (ingest_stats_and_advanced (frozen_clock ''t'') [2024] recording_upsert
             (season_stats_upstream ([[(''season'', PInt 2024), (''games_played'', PInt 3)]], None))
             500 True False False None False 25 []))
   = [(''nfl_player_season_stats'', [PNone])]
   \<and> fst (ingest_stats_and_advanced (frozen_clock ''t'') [2024] recording_upsert
             (season_stats_upstream ([[(''season'', PInt 2024), (''games_played'', PInt 3)]], None))
             500 True False False None False 25 [])
   = Inr \<lparr>season_stats_upserted = 1, game_stats_upserted = 0, adv_receiving_upserted = 0,
           adv_rushing_upserted = 0, adv_passing_upserted = 0\<rparr>"
  by code_simp

subsection \<open>Running the core ingestion twice\<close>





























end
